theory Spec2Isabelle
  imports Complex_Main
begin

section \<open>JavaScript values\<close>

text \<open>
  The consumer of \<^verbatim>\<open>src/index.js\<close> reads a handful of option values and error
  properties. Their types are taken from the declaration file of the repository
  (\<^verbatim>\<open>batchSize?: number\<close>, \<^verbatim>\<open>queueName: string\<close>): an optional property is an
  \<open>option\<close>, with \<open>None\<close> for \<^verbatim>\<open>undefined\<close>. A JavaScript number is a rational, one of
  the two infinities, or NaN; rounding of doubles is not modelled.
\<close>

datatype js_number = NaN | PosInf | NegInf | Fin rat

text \<open>Truthiness of a number: \<^verbatim>\<open>0\<close> and \<^verbatim>\<open>NaN\<close> are falsy.\<close>

definition truthy :: "js_number \<Rightarrow> bool" where
  "truthy n = (case n of NaN \<Rightarrow> False | Fin r \<Rightarrow> r \<noteq> 0 | PosInf \<Rightarrow> True | NegInf \<Rightarrow> True)"

text \<open>Truthiness of an optional number: \<^verbatim>\<open>undefined\<close> is falsy.\<close>

definition truthy_opt :: "js_number option \<Rightarrow> bool" where
  "truthy_opt v = (case v of None \<Rightarrow> False | Some n \<Rightarrow> truthy n)"

text \<open>The conversion the relational operators apply: \<^verbatim>\<open>undefined\<close> becomes NaN.\<close>

definition ToNumber :: "js_number option \<Rightarrow> js_number" where
  "ToNumber v = (case v of None \<Rightarrow> NaN | Some n \<Rightarrow> n)"

text \<open>\<^verbatim>\<open>a < b\<close> on numbers: false as soon as one side is NaN.\<close>

definition js_lt :: "js_number \<Rightarrow> js_number \<Rightarrow> bool" where
  "js_lt a b =
     (case a of
        NaN \<Rightarrow> False
      | PosInf \<Rightarrow> False
      | NegInf \<Rightarrow> (case b of NaN \<Rightarrow> False | NegInf \<Rightarrow> False | PosInf \<Rightarrow> True | Fin y \<Rightarrow> True)
      | Fin x \<Rightarrow> (case b of NaN \<Rightarrow> False | NegInf \<Rightarrow> False | PosInf \<Rightarrow> True | Fin y \<Rightarrow> x < y))"

definition js_gt :: "js_number \<Rightarrow> js_number \<Rightarrow> bool" where
  "js_gt a b = js_lt b a"

text \<open>\<^verbatim>\<open>v || d\<close> for an optional number \<open>v\<close> and a numeric default \<open>d\<close>.\<close>

definition js_or :: "js_number option \<Rightarrow> js_number \<Rightarrow> js_number" where
  "js_or v d = (case v of None \<Rightarrow> d | Some n \<Rightarrow> if truthy n then n else d)"

text \<open>\<^verbatim>\<open>a * b\<close> on numbers.\<close>

definition js_sign :: "js_number \<Rightarrow> int" where
  "js_sign a = (case a of NaN \<Rightarrow> 0 | PosInf \<Rightarrow> 1 | NegInf \<Rightarrow> - 1 | Fin r \<Rightarrow> (if r < 0 then - 1 else if r = 0 then 0 else 1))"

definition js_mul :: "js_number \<Rightarrow> js_number \<Rightarrow> js_number" where
  "js_mul a b =
     (case (a, b) of
        (Fin x, Fin y) \<Rightarrow> Fin (x * y)
      | (NaN, _) \<Rightarrow> NaN
      | (_, NaN) \<Rightarrow> NaN
      | _ \<Rightarrow> (if js_sign a * js_sign b = 0 then NaN
              else if js_sign a * js_sign b > 0 then PosInf else NegInf))"

text \<open>
  An error object, with the properties the consumer reads: \<^verbatim>\<open>name\<close>, \<^verbatim>\<open>message\<close>,
  \<^verbatim>\<open>statusCode\<close> and \<^verbatim>\<open>code\<close>.
\<close>

record js_error =
  name :: string
  message :: string
  statusCode :: "js_number option"
  code :: "string option"

text \<open>\<^verbatim>\<open>new Error(msg)\<close>.\<close>

definition Error_new :: "string \<Rightarrow> js_error" where
  "Error_new msg = \<lparr> name = ''Error'', message = msg, statusCode = None, code = None \<rparr>"

text \<open>
  \<^verbatim>\<open>class QueueServiceError extends Error\<close>: the constructor hands the array of its
  arguments to \<^verbatim>\<open>Error\<close>, whose message is that array converted to a string (the
  elements joined by commas), and sets \<^verbatim>\<open>name\<close> to the name of the class.
\<close>

fun join_commas :: "string list \<Rightarrow> string" where
  "join_commas [] = []"
| "join_commas [x] = x"
| "join_commas (x # y # ys) = x @ '','' @ join_commas (y # ys)"

definition QueueServiceError_name :: string where
  "QueueServiceError_name = ''QueueServiceError''"

definition QueueServiceError :: "string list \<Rightarrow> js_error" where
  "QueueServiceError arguments =
     \<lparr> name = QueueServiceError_name, message = join_commas arguments,
       statusCode = None, code = None \<rparr>"

section \<open>Messages and the handler\<close>

text \<open>A message of the queue service: opaque but for its identifier and pop receipt.\<close>

record queue_message =
  messageId :: string
  popReceipt :: string
  messageText :: string

text \<open>
  What one call \<^verbatim>\<open>handleMessage(message, done)\<close> does before it returns: it throws, it
  calls \<^verbatim>\<open>done\<close> (with an error or without), or it returns and \<^verbatim>\<open>done\<close> is called
  later. A handler calls \<^verbatim>\<open>done\<close> at most once and does not throw after calling it;
  what it throws is an error object, whose \<^verbatim>\<open>message\<close> the consumer reads. The handler
  is any function of the number of earlier invocations and the message, so that it may
  treat the same message differently when it is delivered again.
\<close>

datatype handler_outcome = Throws js_error | Done_now "js_error option" | Done_later

type_synonym handler = "nat \<Rightarrow> queue_message \<Rightarrow> handler_outcome"

section \<open>Construction\<close>

text \<open>
  A client of the queue service, the object whose \<^verbatim>\<open>getMessages\<close> and \<^verbatim>\<open>deleteMessage\<close>
  the consumer calls: opaque, told apart by a name.
\<close>

datatype queue_service = QueueService string

record options =
  queueName :: "string option"
  handleMessage :: "handler option"
  batchSize :: "js_number option"
  pollDelaySeconds :: "js_number option"
  maximumExecutionTimeSeconds :: "js_number option"
  authenticationErrorTimeoutSeconds :: "js_number option"
  queueService :: "queue_service option"

definition requiredOptions :: "string list" where
  "requiredOptions = [''queueName'', ''handleMessage'']"

text \<open>
  Truthiness of \<^verbatim>\<open>options[option]\<close> for the two required options: a string is falsy
  when it is empty, a function never is.
\<close>

definition option_truthy :: "options \<Rightarrow> string \<Rightarrow> bool" where
  "option_truthy options option =
     (if option = ''queueName''
      then (case options.queueName options of None \<Rightarrow> False | Some s \<Rightarrow> s \<noteq> [])
      else if option = ''handleMessage''
      then (case options.handleMessage options of None \<Rightarrow> False | Some h \<Rightarrow> True)
      else False)"

text \<open>
  \<open>validate\<close> (lines 20 to 30). In its \<^verbatim>\<open>forEach\<close> the first falsy required option
  throws.
\<close>

fun check_required :: "options \<Rightarrow> string list \<Rightarrow> js_error option" where
  "check_required options [] = None"
| "check_required options (option # rest) =
     (if \<not> option_truthy options option
      then Some (Error_new (''Missing queue service consumer option ['' @ option @ ''].''))
      else check_required options rest)"

definition validate :: "options \<Rightarrow> js_error + unit" where
  "validate options =
     (case check_required options requiredOptions of
        Some e \<Rightarrow> Inl e
      | None \<Rightarrow>
          if js_gt (ToNumber (options.batchSize options)) (Fin 10)
             \<or> js_lt (ToNumber (options.batchSize options)) (Fin 1)
          then Inl (Error_new ''Queue batchSize option must be between 1 and 10.'')
          else Inr ())"

text \<open>
  The fields of a consumer, in two steps as the constructor assigns them: those of lines
  41 to 52, and the client of line 54. \<^verbatim>\<open>visibilityTimeout\<close> is set to \<^verbatim>\<open>undefined\<close> and
  sent with every fetch. The calls in the trace of the poll loop are calls on the
  client of the consumer.
\<close>

record consumer_fields =
  queueName :: string
  handleMessage :: handler
  stopped :: bool
  isWaiting :: bool
  batchSize :: js_number
  visibilityTimeout :: "js_number option"
  pollDelaySeconds :: js_number
  maximumExecutionTimeSeconds :: js_number
  authenticationErrorTimeoutSeconds :: js_number

record consumer = consumer_fields +
  queueService :: queue_service

text \<open>
  How a construction fails: \<open>validate\<close> throws, before any field is assigned; or
  \<^verbatim>\<open>new azureStorage.createQueueService()\<close> throws, on line 54, when the fields of lines
  41 to 52 are assigned already.
\<close>

datatype construction_failure =
    Thrown_by_validate js_error
  | Thrown_by_createQueueService js_error consumer_fields

text \<open>
  The constructor (lines 37 to 57). Past \<open>validate\<close> both required options are there
  (lemma \<open>validate_required\<close>), so \<open>the\<close> reads a \<open>Some\<close>. A client given in the options is
  taken as it is (an object is truthy); with none, the constructor calls
  \<^verbatim>\<open>new azureStorage.createQueueService()\<close> of the library, which reads the credentials of
  the environment and throws when it finds none. What that call does is the parameter
  \<open>createQueueService\<close>: the error it throws, or the client it returns.
\<close>

definition new_Consumer ::
  "js_error + queue_service \<Rightarrow> options \<Rightarrow> construction_failure + consumer" where
  "new_Consumer createQueueService options =
     (case validate options of
        Inl e \<Rightarrow> Inl (Thrown_by_validate e)
      | Inr u \<Rightarrow>
          (let assigned =
                 \<lparr> queueName = the (options.queueName options),
                   handleMessage = the (options.handleMessage options),
                   stopped = True,
                   isWaiting = False,
                   batchSize = js_or (options.batchSize options) (Fin 1),
                   visibilityTimeout = None,
                   pollDelaySeconds = js_or (options.pollDelaySeconds options) (Fin 1),
                   maximumExecutionTimeSeconds =
                     js_or (options.maximumExecutionTimeSeconds options) (Fin 10),
                   authenticationErrorTimeoutSeconds =
                     js_or (options.authenticationErrorTimeoutSeconds options) (Fin 10) \<rparr>
           in case options.queueService options of
                Some client \<Rightarrow> Inr (consumer_fields.extend assigned (consumer.fields client))
              | None \<Rightarrow>
                  (case createQueueService of
                     Inl e \<Rightarrow> Inl (Thrown_by_createQueueService e assigned)
                   | Inr client \<Rightarrow>
                       Inr (consumer_fields.extend assigned (consumer.fields client)))))"

definition create ::
  "js_error + queue_service \<Rightarrow> options \<Rightarrow> construction_failure + consumer" where
  "create createQueueService options = new_Consumer createQueueService options"

section \<open>The poll loop\<close>

text \<open>
  The consumer is driven by completions: of a fetch, of a delay timer, of a handler's
  \<^verbatim>\<open>done\<close>, of a delete call. The model keeps what is pending beside the consumer, and
  a trace of what the consumer did: the signals it emitted and the calls it made to the
  queue service and to \<^verbatim>\<open>setTimeout\<close>, in order. \<^verbatim>\<open>emit\<close> returns normally (listeners
  are attached and do not call back into the consumer).

  \<^verbatim>\<open>async.each\<close> and \<^verbatim>\<open>async.series\<close> belong to a library, and are modelled after its
  contract: \<^verbatim>\<open>each\<close> calls the iteratee for every item in turn, and its final callback
  once, when every iteratee has called back; \<^verbatim>\<open>series\<close> runs its tasks in order and calls
  its final callback at the first error, or after the last task. The queue service calls
  back later, never from within the call.
\<close>

datatype signal =
    Error js_error "queue_message option"
  | Processing_error js_error queue_message
  | Message_received queue_message
  | Message_processed queue_message
  | Response_processed
  | Stopped

record receiveParams =
  numOfMessages :: js_number
  maximumExecutionTimeInMs :: js_number
  rp_visibilityTimeout :: "js_number option"

datatype action =
    Emit signal
  | GetMessages string receiveParams
  | DeleteMessage string string string
  | SetTimeout js_number

text \<open>
  One slot per message of a batch handed to \<^verbatim>\<open>async.each\<close>: not yet dispatched, waiting
  for the handler's \<^verbatim>\<open>done\<close>, waiting for the delete call's callback, or resolved (the
  iteratee's \<^verbatim>\<open>cb\<close> was called). A waiting slot holds the message its callback closes
  over.
\<close>

datatype slot = Queued | Handling queue_message | Deleting queue_message | Resolved

record world =
  self :: consumer
  handler_calls :: nat
  fetches :: nat
  timers :: "js_number list"
  batches :: "slot list list"
  trace :: "action list"

definition init :: "consumer \<Rightarrow> world" where
  "init c = \<lparr> self = c, handler_calls = 0, fetches = 0, timers = [], batches = [], trace = [] \<rparr>"

definition emit :: "signal \<Rightarrow> world \<Rightarrow> world" where
  "emit s w = w\<lparr> trace := trace w @ [Emit s] \<rparr>"

text \<open>
  \<^verbatim>\<open>_poll\<close> (lines 76 to 89): one fetch when running, the \<^verbatim>\<open>stopped\<close> signal
  otherwise. The callback of the fetch is \<open>handleQueueServiceResponse\<close>, run by the event
  \<open>GetMessages_cb\<close> below.
\<close>

definition poll :: "world \<Rightarrow> world" where
  "poll w =
     (let params = \<lparr> numOfMessages = batchSize (self w),
                      maximumExecutionTimeInMs =
                        js_mul (maximumExecutionTimeSeconds (self w)) (Fin 1000),
                      rp_visibilityTimeout = visibilityTimeout (self w) \<rparr>
      in if \<not> stopped (self w)
         then w\<lparr> fetches := Suc (fetches w),
                 trace := trace w @ [GetMessages (queueName (self w)) params] \<rparr>
         else emit Stopped w)"

text \<open>\<open>start\<close> (lines 63 to 69) and \<open>stop\<close> (lines 71 to 74).\<close>

definition start :: "world \<Rightarrow> world" where
  "start w =
     (if stopped (self w) then poll (w\<lparr> self := (self w)\<lparr> stopped := False \<rparr> \<rparr>) else w)"

definition stop :: "world \<Rightarrow> world" where
  "stop w = w\<lparr> self := (self w)\<lparr> stopped := True \<rparr> \<rparr>"

definition isAuthenticationError :: "js_error \<Rightarrow> bool" where
  "isAuthenticationError err =
     (statusCode err = Some (Fin 403) \<or> code err = Some ''CredentialsError'')"

text \<open>\<^verbatim>\<open>setTimeout(this._poll.bind(this), ms)\<close>.\<close>

definition setTimeout :: "js_number \<Rightarrow> world \<Rightarrow> world" where
  "setTimeout ms w = w\<lparr> timers := timers w @ [ms], trace := trace w @ [SetTimeout ms] \<rparr>"

text \<open>
  The slot of message \<open>i\<close> of batch \<open>b\<close>. The operations below run on a slot that is
  there: \<open>step\<close> looks it up first, and \<open>async_each\<close> works on the batch it has just
  added. (A list update out of range changes nothing.)
\<close>

definition set_slot :: "nat \<Rightarrow> nat \<Rightarrow> slot \<Rightarrow> world \<Rightarrow> world" where
  "set_slot b i s w = w\<lparr> batches := (batches w)[b := (batches w ! b)[i := s]] \<rparr>"

definition all_resolved :: "slot list \<Rightarrow> bool" where
  "all_resolved ss = list_all (\<lambda>s. s = Resolved) ss"

text \<open>
  The iteratee's \<^verbatim>\<open>cb()\<close> of \<^verbatim>\<open>async.each\<close>, for message \<open>i\<close> of batch \<open>b\<close>: the final
  callback runs when the last message of the batch has called back; it emits
  \<^verbatim>\<open>response_processed\<close> and polls.
\<close>

definition each_cb :: "nat \<Rightarrow> nat \<Rightarrow> world \<Rightarrow> world" where
  "each_cb b i w =
     (let w1 = set_slot b i Resolved w
      in if all_resolved (batches w1 ! b) then poll (emit Response_processed w1) else w1)"

text \<open>
  The final callback of \<^verbatim>\<open>async.series\<close> in \<^verbatim>\<open>_processMessage\<close> (lines 132 to 144),
  which ends with the iteratee's \<^verbatim>\<open>cb()\<close>.
\<close>

definition series_cb :: "nat \<Rightarrow> nat \<Rightarrow> queue_message \<Rightarrow> js_error option \<Rightarrow> world \<Rightarrow> world" where
  "series_cb b i msg err w =
     each_cb b i
       (case err of
          Some e \<Rightarrow>
            if name e = QueueServiceError_name
            then emit (Error e (Some msg)) w
            else emit (Processing_error e msg) w
        | None \<Rightarrow> emit (Message_processed msg) w)"

text \<open>
  \<^verbatim>\<open>_deleteMessage\<close> (lines 147 to 155): the call to the queue service, and the callback
  the queue service runs later with the error of the call or with none.
\<close>

definition deleteMessage :: "nat \<Rightarrow> nat \<Rightarrow> queue_message \<Rightarrow> world \<Rightarrow> world" where
  "deleteMessage b i msg w =
     set_slot b i (Deleting msg)
       (w\<lparr> trace := trace w @
              [DeleteMessage (queueName (self w)) (messageId msg) (popReceipt msg)] \<rparr>)"

definition deleteMessage_cb :: "nat \<Rightarrow> nat \<Rightarrow> queue_message \<Rightarrow> js_error option \<Rightarrow> world \<Rightarrow> world" where
  "deleteMessage_cb b i msg err w =
     (case err of
        Some e \<Rightarrow>
          series_cb b i msg
            (Some (QueueServiceError [''Queue service delete message failed: '' @ message e])) w
      | None \<Rightarrow> series_cb b i msg None w)"

text \<open>
  The handler's \<^verbatim>\<open>done(err)\<close>: \<^verbatim>\<open>async.series\<close> ends with the error, or runs the second
  task, the delete call.
\<close>

definition handler_done :: "nat \<Rightarrow> nat \<Rightarrow> queue_message \<Rightarrow> js_error option \<Rightarrow> world \<Rightarrow> world" where
  "handler_done b i msg err w =
     (case err of
        Some e \<Rightarrow> series_cb b i msg (Some e) w
      | None \<Rightarrow> deleteMessage b i msg w)"

text \<open>
  \<^verbatim>\<open>_processMessage\<close> (lines 117 to 131) up to the point where the handler returns or
  throws: what is thrown is caught and handed to \<^verbatim>\<open>done\<close> wrapped in a new \<^verbatim>\<open>Error\<close>.
\<close>

definition processMessage :: "nat \<Rightarrow> nat \<Rightarrow> queue_message \<Rightarrow> world \<Rightarrow> world" where
  "processMessage b i msg w =
     (let w1 = (emit (Message_received msg) w)\<lparr> handler_calls := Suc (handler_calls w) \<rparr>
      in case handleMessage (self w) (handler_calls w) msg of
           Throws err \<Rightarrow>
             handler_done b i msg
               (Some (Error_new (''Unexpected message handler failure: '' @ message err))) w1
         | Done_now err \<Rightarrow> handler_done b i msg err w1
         | Done_later \<Rightarrow> set_slot b i (Handling msg) w1)"

text \<open>
  \<^verbatim>\<open>async.each(response, this._processMessage, ...)\<close>: the iteratee is called for every
  message in turn; the batch is the next entry of \<open>batches\<close>.
\<close>

fun dispatch :: "nat \<Rightarrow> nat \<Rightarrow> queue_message list \<Rightarrow> world \<Rightarrow> world" where
  "dispatch b i [] w = w"
| "dispatch b i (msg # msgs) w = dispatch b (Suc i) msgs (processMessage b i msg w)"

definition async_each :: "queue_message list \<Rightarrow> world \<Rightarrow> world" where
  "async_each response w =
     dispatch (length (batches w)) 0 response
       (w\<lparr> batches := batches w @ [map (\<lambda>m. Queued) response] \<rparr>)"

text \<open>
  \<^verbatim>\<open>_handleQueueServiceResponse(err, response)\<close> (lines 91 to 115). A response is an
  array of messages, or \<^verbatim>\<open>undefined\<close>.
\<close>

definition handleQueueServiceResponse ::
  "js_error option \<Rightarrow> queue_message list option \<Rightarrow> world \<Rightarrow> world" where
  "handleQueueServiceResponse err response w =
     (let w1 = (case err of
                  Some e \<Rightarrow>
                    emit (Error (QueueServiceError
                            [''Queue service receive message failed: '' @ message e]) None) w
                | None \<Rightarrow> w)
      in case response of
           Some (m # ms) \<Rightarrow> async_each (m # ms) w1
         | _ \<Rightarrow>
             if (case err of Some e \<Rightarrow> isAuthenticationError e | None \<Rightarrow> False)
             then setTimeout (js_mul (authenticationErrorTimeoutSeconds (self w1)) (Fin 1000)) w1
             else setTimeout (js_mul (pollDelaySeconds (self w1)) (Fin 1000)) w1)"

section \<open>Events\<close>

text \<open>
  What can happen to a consumer: a call of \<open>start\<close> or \<open>stop\<close>, the callback of a
  pending fetch, a pending timer firing, the \<^verbatim>\<open>done\<close> of a waiting handler, the callback
  of a pending delete call. An event that has nothing pending to complete is refused
  (\<open>None\<close>).
\<close>

datatype event =
    Start
  | Stop
  | GetMessages_cb "js_error option" "queue_message list option"
  | Timeout nat
  | Handler_cb nat nat "js_error option"
  | DeleteMessage_cb nat nat "js_error option"

definition slot_at :: "world \<Rightarrow> nat \<Rightarrow> nat \<Rightarrow> slot option" where
  "slot_at w b i =
     (if b < length (batches w) \<and> i < length (batches w ! b)
      then Some (batches w ! b ! i) else None)"

fun step :: "event \<Rightarrow> world \<Rightarrow> world option" where
  "step Start w = Some (start w)"
| "step Stop w = Some (stop w)"
| "step (GetMessages_cb err response) w =
     (if 0 < fetches w
      then Some (handleQueueServiceResponse err response (w\<lparr> fetches := fetches w - 1 \<rparr>))
      else None)"
| "step (Timeout k) w =
     (if k < length (timers w)
      then Some (poll (w\<lparr> timers := take k (timers w) @ drop (Suc k) (timers w) \<rparr>))
      else None)"
| "step (Handler_cb b i err) w =
     (case slot_at w b i of
        Some (Handling msg) \<Rightarrow> Some (handler_done b i msg err w)
      | _ \<Rightarrow> None)"
| "step (DeleteMessage_cb b i err) w =
     (case slot_at w b i of
        Some (Deleting msg) \<Rightarrow> Some (deleteMessage_cb b i msg err w)
      | _ \<Rightarrow> None)"

fun run :: "event list \<Rightarrow> world \<Rightarrow> world option" where
  "run [] w = Some w"
| "run (e # es) w = (case step e w of None \<Rightarrow> None | Some w' \<Rightarrow> run es w')"

section \<open>Observations\<close>

text \<open>
  What the properties below read off a trace: the signal that settles a message (an
  \<^verbatim>\<open>error\<close> carrying a message, a \<^verbatim>\<open>processing_error\<close>, a \<^verbatim>\<open>message_processed\<close>), and
  the calls to the queue service and to \<^verbatim>\<open>setTimeout\<close>.
\<close>

fun is_outcome :: "action \<Rightarrow> bool" where
  "is_outcome (Emit (Error e (Some m))) = True"
| "is_outcome (Emit (Processing_error e m)) = True"
| "is_outcome (Emit (Message_processed m)) = True"
| "is_outcome a = False"

fun is_fetch :: "action \<Rightarrow> bool" where
  "is_fetch (GetMessages q p) = True"
| "is_fetch a = False"

fun is_delete :: "action \<Rightarrow> bool" where
  "is_delete (DeleteMessage q i r) = True"
| "is_delete a = False"

fun is_timeout :: "action \<Rightarrow> bool" where
  "is_timeout (SetTimeout ms) = True"
| "is_timeout a = False"

fun is_received :: "action \<Rightarrow> bool" where
  "is_received (Emit (Message_received m)) = True"
| "is_received a = False"

definition is_response_processed :: "action \<Rightarrow> bool" where
  "is_response_processed a = (a = Emit Response_processed)"

text \<open>What \<open>poll\<close> appends to the trace of a consumer.\<close>

definition poll_action :: "consumer \<Rightarrow> action" where
  "poll_action c =
     (if stopped c then Emit Stopped
      else GetMessages (queueName c)
             \<lparr> numOfMessages = batchSize c,
               maximumExecutionTimeInMs = js_mul (maximumExecutionTimeSeconds c) (Fin 1000),
               rp_visibilityTimeout = visibilityTimeout c \<rparr>)"

text \<open>
  What is pending: fetches whose callback has not run, timers that have not fired, and
  batches with a message that has not called back.
\<close>

definition pending :: "world \<Rightarrow> nat" where
  "pending w =
     fetches w + length (timers w) + length (filter (\<lambda>ss. \<not> all_resolved ss) (batches w))"

text \<open>
  The books balance: one \<^verbatim>\<open>response_processed\<close> per batch whose messages have all
  called back, and one settling signal per message that has called back.
\<close>

definition settled :: "world \<Rightarrow> bool" where
  "settled w =
     (length (filter is_response_processed (trace w)) = length (filter all_resolved (batches w))
      \<and> length (filter is_outcome (trace w)) =
          sum_list (map (\<lambda>ss. length (filter (\<lambda>s. s = Resolved) ss)) (batches w)))"

text \<open>
  A sequence of events in which every \<open>start\<close> that finds the consumer stopped finds
  nothing pending.
\<close>

fun starts_when_idle :: "event list \<Rightarrow> world \<Rightarrow> bool" where
  "starts_when_idle [] w = True"
| "starts_when_idle (e # es) w =
     ((e = Start \<longrightarrow> \<not> stopped (self w) \<or> pending w = 0)
      \<and> (case step e w of None \<Rightarrow> True | Some w' \<Rightarrow> starts_when_idle es w'))"

text \<open>
  Every operation on a slot has one shape: it appends to the trace, moves the slot, and,
  when the slot is resolved and was the last of its batch, runs the final callback of
  \<^verbatim>\<open>async.each\<close>.
\<close>

definition slot_op :: "nat \<Rightarrow> nat \<Rightarrow> slot \<Rightarrow> action list \<Rightarrow> world \<Rightarrow> world" where
  "slot_op b i s pre w =
     (let w1 = set_slot b i s (w\<lparr> trace := trace w @ pre \<rparr>)
      in if s = Resolved \<and> all_resolved (batches w1 ! b)
         then poll (emit Response_processed w1) else w1)"

definition completes :: "nat \<Rightarrow> nat \<Rightarrow> slot \<Rightarrow> world \<Rightarrow> bool" where
  "completes b i s w =
     (s = Resolved \<and> all_resolved ((batches w)[b := (batches w ! b)[i := s]] ! b))"

text \<open>The slot an operation works on: in range and not yet resolved.\<close>

definition open_slot :: "world \<Rightarrow> nat \<Rightarrow> nat \<Rightarrow> bool" where
  "open_slot w b i =
     (b < length (batches w) \<and> i < length (batches w ! b) \<and> batches w ! b ! i \<noteq> Resolved)"

text \<open>What an operation on a slot appends before the final callback.\<close>

definition slot_pre :: "slot \<Rightarrow> action list \<Rightarrow> bool" where
  "slot_pre s pre =
     (s \<noteq> Queued \<and> filter is_response_processed pre = [] \<and> filter is_fetch pre = []
      \<and> filter is_timeout pre = [] \<and> Emit Stopped \<notin> set pre
      \<and> length (filter is_outcome pre) = (if s = Resolved then 1 else 0))"

text \<open>The first statement of \<open>handleQueueServiceResponse\<close>, and the delay of its last two branches.\<close>

definition report_fetch_error :: "js_error option \<Rightarrow> world \<Rightarrow> world" where
  "report_fetch_error err w =
     (case err of
        Some e \<Rightarrow>
          emit (Error (QueueServiceError
                  [''Queue service receive message failed: '' @ message e]) None) w
      | None \<Rightarrow> w)"

definition repoll_delay :: "js_error option \<Rightarrow> consumer \<Rightarrow> js_number" where
  "repoll_delay err c =
     (if (case err of Some e \<Rightarrow> isAuthenticationError e | None \<Rightarrow> False)
      then js_mul (authenticationErrorTimeoutSeconds c) (Fin 1000)
      else js_mul (pollDelaySeconds c) (Fin 1000))"

section \<open>Example inputs\<close>

definition example_handler :: handler where
  "example_handler n m = Done_later"

definition throwing_handler :: handler where
  "throwing_handler n m =
     Throws \<lparr> name = ''TypeError'', message = ''x is undefined'', statusCode = None, code = None \<rparr>"

definition example_options :: options where
  "example_options =
     \<lparr> options.queueName = Some ''jobs'', handleMessage = Some example_handler,
       batchSize = None, pollDelaySeconds = None, maximumExecutionTimeSeconds = None,
       authenticationErrorTimeoutSeconds = None, queueService = None \<rparr>"

definition example_client :: queue_service where
  "example_client = QueueService ''devstoreaccount1''"

definition credentials_error :: js_error where
  "credentials_error =
     \<lparr> name = ''Error'', message = ''Credentials must be provided when creating a service client.'',
       statusCode = None, code = None \<rparr>"

definition example_consumer :: consumer where
  "example_consumer =
     \<lparr> queueName = ''jobs'', handleMessage = example_handler, stopped = True,
       isWaiting = False, batchSize = Fin 1, visibilityTimeout = None,
       pollDelaySeconds = Fin 1, maximumExecutionTimeSeconds = Fin 10,
       authenticationErrorTimeoutSeconds = Fin 10, queueService = example_client \<rparr>"

definition example_params :: receiveParams where
  "example_params =
     \<lparr> numOfMessages = Fin 1, maximumExecutionTimeInMs = Fin 10000,
       rp_visibilityTimeout = None \<rparr>"

definition example_message :: queue_message where
  "example_message = \<lparr> messageId = ''id-1'', popReceipt = ''receipt-1'', messageText = ''hello'' \<rparr>"

definition plain_error :: js_error where
  "plain_error = \<lparr> name = ''Error'', message = ''boom'', statusCode = None, code = None \<rparr>"

definition named_error :: js_error where
  "named_error =
     \<lparr> name = ''QueueServiceError'', message = ''boom'', statusCode = None, code = None \<rparr>"

definition forbidden_error :: js_error where
  "forbidden_error =
     \<lparr> name = ''StorageError'', message = ''Forbidden'', statusCode = Some (Fin 403),
       code = Some ''AuthenticationFailed'' \<rparr>"

definition falsy_options :: options where
  "falsy_options =
     \<lparr> options.queueName = Some ''jobs'', handleMessage = Some example_handler,
       batchSize = Some NaN, pollDelaySeconds = Some (Fin 0),
       maximumExecutionTimeSeconds = Some (Fin 0),
       authenticationErrorTimeoutSeconds = Some NaN, queueService = Some example_client \<rparr>"

definition failing_handler :: handler where
  "failing_handler n m = Done_now (Some named_error)"

definition second_message :: queue_message where
  "second_message = \<lparr> messageId = ''id-2'', popReceipt = ''receipt-2'', messageText = ''world'' \<rparr>"

section \<open>Effects of the operations\<close>

lemma poll_eq:
  "poll w = w\<lparr> fetches := (if stopped (self w) then fetches w else Suc (fetches w)),
              trace := trace w @ [poll_action (self w)] \<rparr>"
  by (simp add: poll_def poll_action_def emit_def Let_def)

lemma each_cb_slot_op: "each_cb b i w = slot_op b i Resolved [] w"
  by (simp add: each_cb_def slot_op_def)

lemma series_cb_slot_op:
  "series_cb b i msg err w =
     slot_op b i Resolved
       [Emit (case err of
                Some e \<Rightarrow> if name e = QueueServiceError_name then Error e (Some msg)
                          else Processing_error e msg
              | None \<Rightarrow> Message_processed msg)] w"
  by (simp add: series_cb_def each_cb_def slot_op_def emit_def set_slot_def split: option.splits)

lemma deleteMessage_slot_op:
  "deleteMessage b i msg w =
     slot_op b i (Deleting msg) [DeleteMessage (queueName (self w)) (messageId msg) (popReceipt msg)] w"
  by (simp add: deleteMessage_def slot_op_def)

lemma slot_op_self [simp]: "self (slot_op b i s pre w) = self w"
  by (simp add: slot_op_def set_slot_def poll_eq emit_def Let_def)

lemma slot_op_timers [simp]: "timers (slot_op b i s pre w) = timers w"
  by (simp add: slot_op_def set_slot_def poll_eq emit_def Let_def)

lemma slot_op_handler_calls [simp]: "handler_calls (slot_op b i s pre w) = handler_calls w"
  by (simp add: slot_op_def set_slot_def poll_eq emit_def Let_def)

lemma slot_op_batches [simp]:
  "batches (slot_op b i s pre w) = (batches w)[b := (batches w ! b)[i := s]]"
  by (simp add: slot_op_def set_slot_def poll_eq emit_def Let_def)

lemma slot_op_trace:
  "trace (slot_op b i s pre w) =
     trace w @ pre @ (if completes b i s w then [Emit Response_processed, poll_action (self w)] else [])"
  by (cases "s = Resolved") (simp_all add: slot_op_def set_slot_def poll_eq emit_def Let_def completes_def)

lemma slot_op_fetches:
  "fetches (slot_op b i s pre w) =
     (if completes b i s w \<and> \<not> stopped (self w) then Suc (fetches w) else fetches w)"
  by (cases "s = Resolved") (simp_all add: slot_op_def set_slot_def poll_eq emit_def Let_def completes_def)

lemma slot_op_handler_calls_update:
  "slot_op b i s pre (w\<lparr> handler_calls := n \<rparr>) = (slot_op b i s pre w)\<lparr> handler_calls := n \<rparr>"
  by (cases "s = Resolved") (simp_all add: slot_op_def set_slot_def poll_eq emit_def Let_def)

lemma length_filter_update:
  "i < length xs \<Longrightarrow>
     length (filter Q (xs[i := x])) + (if Q (xs ! i) then 1 else 0) =
     length (filter Q xs) + (if Q x then 1 else 0)"
proof (induction xs arbitrary: i)
  case Nil
  then show ?case by simp
next
  case (Cons y ys)
  show ?case
  proof (cases i)
    case 0
    then show ?thesis by simp
  next
    case (Suc j)
    with Cons.prems have "j < length ys" by simp
    from Cons.IH [OF this] Suc show ?thesis by simp
  qed
qed

lemma sum_list_map_update:
  "i < length xs \<Longrightarrow>
     sum_list (map f (xs[i := x])) + f (xs ! i) = sum_list (map f xs) + (f x :: nat)"
proof (induction xs arbitrary: i)
  case Nil
  then show ?case by simp
next
  case (Cons y ys)
  show ?case
  proof (cases i)
    case 0
    then show ?thesis by simp
  next
    case (Suc j)
    with Cons.prems have "j < length ys" by simp
    from Cons.IH [OF this] Suc show ?thesis by simp
  qed
qed

lemma all_resolved_nth: "i < length ss \<Longrightarrow> ss ! i \<noteq> Resolved \<Longrightarrow> \<not> all_resolved ss"
  by (auto simp: all_resolved_def list_all_length)

lemma all_resolved_update: "i < length ss \<Longrightarrow> s \<noteq> Resolved \<Longrightarrow> \<not> all_resolved (ss[i := s])"
  using all_resolved_nth [of i "ss[i := s]"] by simp

lemma pending_slot_op:
  assumes "open_slot w b i"
  shows "pending (slot_op b i s pre w) + (if completes b i s w \<and> stopped (self w) then 1 else 0) = pending w"
proof -
  from assms have b: "b < length (batches w)" and i: "i < length (batches w ! b)"
    and r: "batches w ! b ! i \<noteq> Resolved" by (auto simp: open_slot_def)
  have before: "\<not> all_resolved (batches w ! b)" using all_resolved_nth [OF i r] .
  have after: "all_resolved ((batches w ! b)[i := s]) = completes b i s w"
    using b i all_resolved_update [of i "batches w ! b" s] by (auto simp: completes_def)
  have "length (filter (\<lambda>ss. \<not> all_resolved ss) ((batches w)[b := (batches w ! b)[i := s]])) + 1
      = length (filter (\<lambda>ss. \<not> all_resolved ss) (batches w)) + (if completes b i s w then 0 else 1)"
    using length_filter_update [OF b, of "\<lambda>ss. \<not> all_resolved ss" "(batches w ! b)[i := s]"] before after
    by simp
  then show ?thesis
    by (auto simp: pending_def slot_op_fetches)
qed

lemma slot_op_trace_append:
  "slot_op b i s pre (w\<lparr> trace := trace w @ xs \<rparr>) = slot_op b i s (xs @ pre) w"
  by (cases "s = Resolved") (simp_all add: slot_op_def set_slot_def poll_eq emit_def Let_def)

lemma series_cb_nf:
  "\<exists>pre. slot_pre Resolved pre \<and> series_cb b i msg err w = slot_op b i Resolved pre w"
  unfolding series_cb_slot_op
  by (rule exI [where x = "[Emit (case err of
                Some e \<Rightarrow> if name e = QueueServiceError_name then Error e (Some msg)
                          else Processing_error e msg
              | None \<Rightarrow> Message_processed msg)]"])
     (simp add: slot_pre_def is_response_processed_def split: option.splits)

lemma deleteMessage_cb_nf:
  "\<exists>pre. slot_pre Resolved pre \<and> deleteMessage_cb b i msg err w = slot_op b i Resolved pre w"
  using series_cb_nf by (cases err) (simp_all add: deleteMessage_cb_def)

lemma deleteMessage_nf:
  "\<exists>s pre. slot_pre s pre \<and> deleteMessage b i msg w = slot_op b i s pre w"
  unfolding deleteMessage_slot_op
  by (intro exI conjI, rule_tac [2] refl) (simp add: slot_pre_def is_response_processed_def)

lemma handler_done_nf:
  "\<exists>s pre. slot_pre s pre \<and> handler_done b i msg err w = slot_op b i s pre w"
proof (cases err)
  case None
  then show ?thesis using deleteMessage_nf by (simp add: handler_done_def)
next
  case (Some e)
  then show ?thesis using series_cb_nf [of b i msg "Some e" w] by (auto simp: handler_done_def)
qed

lemma processMessage_nf:
  "\<exists>s pre. slot_pre s pre
     \<and> processMessage b i msg w = (slot_op b i s pre w)\<lparr> handler_calls := Suc (handler_calls w) \<rparr>"
proof -
  let ?n = "Suc (handler_calls w)"
  let ?mr = "[Emit (Message_received msg)]"
  let ?w1 = "(emit (Message_received msg) w)\<lparr> handler_calls := ?n \<rparr>"
  have w1: "?w1 = (w\<lparr> handler_calls := ?n \<rparr>)\<lparr> trace := trace (w\<lparr> handler_calls := ?n \<rparr>) @ ?mr \<rparr>"
    by (simp add: emit_def)
  have absorb: "slot_op b i s pre ?w1 = (slot_op b i s (?mr @ pre) w)\<lparr> handler_calls := ?n \<rparr>" for s pre
    unfolding w1 slot_op_trace_append slot_op_handler_calls_update ..
  have pre: "slot_pre s pre \<Longrightarrow> slot_pre s (?mr @ pre)" for s pre
    by (simp add: slot_pre_def is_response_processed_def)
  have hdone: "\<exists>s pre. slot_pre s pre \<and> handler_done b i msg err ?w1
      = (slot_op b i s pre w)\<lparr> handler_calls := ?n \<rparr>" for err
  proof -
    obtain s p where "slot_pre s p" and "handler_done b i msg err ?w1 = slot_op b i s p ?w1"
      using handler_done_nf by blast
    then show ?thesis using absorb [of s p] pre [of s p] by metis
  qed
  show ?thesis
  proof (cases "handleMessage (self w) (handler_calls w) msg")
    case (Throws e)
    then show ?thesis using hdone by (simp add: processMessage_def)
  next
    case (Done_now err)
    then show ?thesis using hdone by (simp add: processMessage_def)
  next
    case Done_later
    have "set_slot b i (Handling msg) ?w1 = slot_op b i (Handling msg) [] ?w1"
      by (simp add: slot_op_def)
    also have "\<dots> = (slot_op b i (Handling msg) (?mr @ []) w)\<lparr> handler_calls := ?n \<rparr>"
      by (rule absorb)
    finally have "processMessage b i msg w
        = (slot_op b i (Handling msg) ?mr w)\<lparr> handler_calls := ?n \<rparr>"
      using Done_later by (simp add: processMessage_def)
    moreover have "slot_pre (Handling msg) ?mr"
      by (simp add: slot_pre_def is_response_processed_def)
    ultimately show ?thesis by blast
  qed
qed

lemma dispatch_invariant:
  assumes "Q w"
    and "b < length (batches w)"
    and "i + length msgs \<le> length (batches w ! b)"
    and "\<And>j. i \<le> j \<Longrightarrow> j < i + length msgs \<Longrightarrow> batches w ! b ! j = Queued"
    and step: "\<And>v j s pre. Q v \<Longrightarrow> open_slot v b j \<Longrightarrow> slot_pre s pre \<Longrightarrow>
             Q ((slot_op b j s pre v)\<lparr> handler_calls := Suc (handler_calls v) \<rparr>)"
  shows "Q (dispatch b i msgs w)"
  using assms(1-4)
proof (induction msgs arbitrary: i w)
  case Nil
  then show ?case by simp
next
  case (Cons msg msgs)
  obtain s pre where sp: "slot_pre s pre"
    and pm: "processMessage b i msg w = (slot_op b i s pre w)\<lparr> handler_calls := Suc (handler_calls w) \<rparr>"
    using processMessage_nf by blast
  let ?w' = "processMessage b i msg w"
  have i: "i < length (batches w ! b)" using Cons.prems(3) by simp
  have "batches w ! b ! i = Queued" using Cons.prems(4) [of i] by simp
  then have "open_slot w b i" using Cons.prems(2) i by (simp add: open_slot_def)
  then have Q': "Q ?w'" unfolding pm using step Cons.prems(1) sp by blast
  have bs: "batches ?w' = (batches w)[b := (batches w ! b)[i := s]]"
    unfolding pm by simp
  have "Q (dispatch b (Suc i) msgs ?w')"
  proof (rule Cons.IH [OF Q'])
    show "b < length (batches ?w')" using Cons.prems(2) by (simp add: bs)
    show "Suc i + length msgs \<le> length (batches ?w' ! b)"
      using Cons.prems(2,3) by (simp add: bs)
    show "batches ?w' ! b ! j = Queued" if "Suc i \<le> j" "j < Suc i + length msgs" for j
      using that Cons.prems(2) Cons.prems(4) [of j] by (simp add: bs)
  qed
  then show ?case by simp
qed

lemma poll_action_kinds [simp]:
  "\<not> is_outcome (poll_action c)" "\<not> is_timeout (poll_action c)"
  "\<not> is_response_processed (poll_action c)" "\<not> is_received (poll_action c)"
  "\<not> is_delete (poll_action c)"
  "is_fetch (poll_action c) = (\<not> stopped c)"
  by (simp_all add: poll_action_def is_response_processed_def)

lemma pending_handler_calls [simp]: "pending (w\<lparr> handler_calls := n \<rparr>) = pending w"
  by (simp add: pending_def)

lemma settled_handler_calls [simp]: "settled (w\<lparr> handler_calls := n \<rparr>) = settled w"
  by (simp add: settled_def)

lemma slot_trans_pending:
  assumes "open_slot v b j"
  shows "pending (slot_op b j s pre v) \<le> pending v"
  using pending_slot_op [OF assms, of s pre] by (simp split: if_splits)

lemma slot_trans_settled:
  assumes "settled v" and "open_slot v b j" and "slot_pre s pre"
  shows "settled (slot_op b j s pre v)"
proof -
  from assms(2) have b: "b < length (batches v)" and j: "j < length (batches v ! b)"
    and r: "batches v ! b ! j \<noteq> Resolved" by (auto simp: open_slot_def)
  let ?ss = "batches v ! b"
  have before: "\<not> all_resolved ?ss" using all_resolved_nth [OF j r] .
  have after: "all_resolved (?ss[j := s]) = completes b j s v"
    using b j all_resolved_update [of j ?ss s] by (auto simp: completes_def)
  have fin: "length (filter all_resolved ((batches v)[b := ?ss[j := s]]))
      = length (filter all_resolved (batches v)) + (if completes b j s v then 1 else 0)"
    using length_filter_update [OF b, of all_resolved "?ss[j := s]"] before after by simp
  have slot: "length (filter (\<lambda>s. s = Resolved) (?ss[j := s]))
      = length (filter (\<lambda>s. s = Resolved) ?ss) + (if s = Resolved then 1 else 0)"
    using length_filter_update [OF j, of "\<lambda>s. s = Resolved" s] r by simp
  have res: "sum_list (map (\<lambda>ss. length (filter (\<lambda>s. s = Resolved) ss)) ((batches v)[b := ?ss[j := s]]))
      = sum_list (map (\<lambda>ss. length (filter (\<lambda>s. s = Resolved) ss)) (batches v))
        + (if s = Resolved then 1 else 0)"
    using sum_list_map_update [OF b, of "\<lambda>ss. length (filter (\<lambda>s. s = Resolved) ss)" "?ss[j := s]"] slot
    by simp
  from assms(3) have p1: "filter is_response_processed pre = []"
    and p2: "length (filter is_outcome pre) = (if s = Resolved then 1 else 0)"
    by (simp_all add: slot_pre_def)
  have rp: "is_response_processed (Emit Response_processed)" "\<not> is_outcome (Emit Response_processed)"
    by (simp_all add: is_response_processed_def)
  show ?thesis
    using assms(1) fin res p1 p2 rp
    by (simp add: settled_def slot_op_trace)
qed

lemma slot_trans_fetch_calls:
  assumes "slot_pre s pre" and "stopped (self v)"
  shows "filter is_fetch (trace (slot_op b j s pre v)) = filter is_fetch (trace v)"
  using assms by (simp add: slot_pre_def slot_op_trace)

lemma slot_trans_timeouts:
  assumes "slot_pre s pre"
  shows "filter is_timeout (trace (slot_op b j s pre v)) = filter is_timeout (trace v)"
  using assms by (simp add: slot_pre_def slot_op_trace)

text \<open>The batch \<open>async_each\<close> registers, before any message is dispatched.\<close>

lemma async_each_invariant:
  assumes "Q (w\<lparr> batches := batches w @ [map (\<lambda>m. Queued) msgs] \<rparr>)"
    and "\<And>v j s pre. Q v \<Longrightarrow> open_slot v (length (batches w)) j \<Longrightarrow> slot_pre s pre \<Longrightarrow>
             Q ((slot_op (length (batches w)) j s pre v)\<lparr> handler_calls := Suc (handler_calls v) \<rparr>)"
  shows "Q (async_each msgs w)"
  unfolding async_each_def
  by (rule dispatch_invariant [where Q = Q, OF assms(1)]) (simp_all add: assms(2) nth_append)

lemma async_each_pending:
  assumes "msgs \<noteq> []"
  shows "pending (async_each msgs w) \<le> Suc (pending w)"
proof (rule async_each_invariant [where Q = "\<lambda>v. pending v \<le> Suc (pending w)"])
  have "\<not> all_resolved (map (\<lambda>m. Queued) msgs)"
    using assms by (cases msgs) (simp_all add: all_resolved_def)
  then show "pending (w\<lparr> batches := batches w @ [map (\<lambda>m. Queued) msgs] \<rparr>) \<le> Suc (pending w)"
    by (simp add: pending_def)
next
  fix v j s pre
  assume "pending v \<le> Suc (pending w)" and "open_slot v (length (batches w)) j"
  then show "pending ((slot_op (length (batches w)) j s pre v)\<lparr> handler_calls := Suc (handler_calls v) \<rparr>)
      \<le> Suc (pending w)"
    using slot_trans_pending [of v "length (batches w)" j s pre] by simp
qed

lemma async_each_settled:
  assumes "msgs \<noteq> []" and "settled w"
  shows "settled (async_each msgs w)"
proof (rule async_each_invariant [where Q = settled])
  have "\<not> all_resolved (map (\<lambda>m. Queued) msgs)"
    using assms(1) by (cases msgs) (simp_all add: all_resolved_def)
  moreover have "filter (\<lambda>s. s = Resolved) (map (\<lambda>m. Queued) msgs) = []"
    by (induction msgs) simp_all
  ultimately show "settled (w\<lparr> batches := batches w @ [map (\<lambda>m. Queued) msgs] \<rparr>)"
    using assms(2) by (simp add: settled_def)
qed (simp add: slot_trans_settled)

lemma async_each_frame:
  "self (async_each msgs w) = self w \<and> timers (async_each msgs w) = timers w
   \<and> filter is_timeout (trace (async_each msgs w)) = filter is_timeout (trace w)"
  by (rule async_each_invariant
        [where Q = "\<lambda>v. self v = self w \<and> timers v = timers w
                      \<and> filter is_timeout (trace v) = filter is_timeout (trace w)"])
     (simp_all add: slot_trans_timeouts)

lemma async_each_fetch_calls:
  assumes "stopped (self w)"
  shows "filter is_fetch (trace (async_each msgs w)) = filter is_fetch (trace w)"
proof -
  have "stopped (self (async_each msgs w))
      \<and> filter is_fetch (trace (async_each msgs w)) = filter is_fetch (trace w)"
    by (rule async_each_invariant
          [where Q = "\<lambda>v. stopped (self v) \<and> filter is_fetch (trace v) = filter is_fetch (trace w)"])
       (simp_all add: assms slot_trans_fetch_calls)
  then show ?thesis by simp
qed

lemma report_fetch_error_self [simp]: "self (report_fetch_error err w) = self w"
  by (cases err) (simp_all add: report_fetch_error_def emit_def)

lemma handleQueueServiceResponse_empty:
  assumes "response = None \<or> response = Some []"
  shows "handleQueueServiceResponse err response w =
    setTimeout (repoll_delay err (self w)) (report_fetch_error err w)"
proof -
  have "handleQueueServiceResponse err response w =
      (if (case err of Some e \<Rightarrow> isAuthenticationError e | None \<Rightarrow> False)
       then setTimeout (js_mul (authenticationErrorTimeoutSeconds (self (report_fetch_error err w))) (Fin 1000))
              (report_fetch_error err w)
       else setTimeout (js_mul (pollDelaySeconds (self (report_fetch_error err w))) (Fin 1000))
              (report_fetch_error err w))"
    using assms
    by (auto simp: handleQueueServiceResponse_def report_fetch_error_def Let_def)
  then show ?thesis by (simp add: repoll_delay_def)
qed

lemma handleQueueServiceResponse_batch:
  "handleQueueServiceResponse err (Some (m # ms)) w = async_each (m # ms) (report_fetch_error err w)"
  by (simp add: handleQueueServiceResponse_def report_fetch_error_def Let_def del: dispatch.simps)

lemma handleQueueServiceResponse_cases:
  obtains (batch) m ms where "response = Some (m # ms)"
      "handleQueueServiceResponse err response w = async_each (m # ms) (report_fetch_error err w)"
    | (wait) delay where "response = None \<or> response = Some []"
      "handleQueueServiceResponse err response w = setTimeout delay (report_fetch_error err w)"
proof (cases response)
  case None
  then show ?thesis using wait handleQueueServiceResponse_empty by blast
next
  case (Some msgs)
  show ?thesis
  proof (cases msgs)
    case Nil
    with Some show ?thesis using wait handleQueueServiceResponse_empty by blast
  next
    case (Cons m ms)
    with Some show ?thesis using batch handleQueueServiceResponse_batch by blast
  qed
qed

lemma report_fetch_error_frame [simp]:
  "timers (report_fetch_error err w) = timers w"
  "fetches (report_fetch_error err w) = fetches w"
  "batches (report_fetch_error err w) = batches w"
  "pending (report_fetch_error err w) = pending w"
  "settled (report_fetch_error err w) = settled w"
  "filter is_fetch (trace (report_fetch_error err w)) = filter is_fetch (trace w)"
  "filter is_timeout (trace (report_fetch_error err w)) = filter is_timeout (trace w)"
  by (cases err; simp add: report_fetch_error_def emit_def pending_def settled_def
        is_response_processed_def)+

lemma handleQueueServiceResponse_pending:
  "pending (handleQueueServiceResponse err response w) \<le> Suc (pending w)"
proof (cases rule: handleQueueServiceResponse_cases [of response err w])
  case (batch m ms)
  then show ?thesis
    using async_each_pending [of "m # ms" "report_fetch_error err w"] by simp
next
  case (wait delay)
  then show ?thesis by (simp add: pending_def setTimeout_def)
qed

lemma handleQueueServiceResponse_settled:
  assumes "settled w"
  shows "settled (handleQueueServiceResponse err response w)"
proof (cases rule: handleQueueServiceResponse_cases [of response err w])
  case (batch m ms)
  then show ?thesis
    using async_each_settled [of "m # ms" "report_fetch_error err w"] assms by simp
next
  case (wait delay)
  have "settled (setTimeout delay v) = settled v" for v
    by (simp add: settled_def setTimeout_def is_response_processed_def)
  with wait assms show ?thesis by simp
qed

lemma handleQueueServiceResponse_stopped:
  assumes "stopped (self w)"
  shows "self (handleQueueServiceResponse err response w) = self w
    \<and> filter is_fetch (trace (handleQueueServiceResponse err response w)) = filter is_fetch (trace w)"
proof (cases rule: handleQueueServiceResponse_cases [of response err w])
  case (batch m ms)
  then show ?thesis
    using async_each_fetch_calls [of "report_fetch_error err w" "m # ms"] assms
      async_each_frame [of "m # ms" "report_fetch_error err w"] by simp
next
  case (wait delay)
  then show ?thesis by (simp add: setTimeout_def)
qed

lemma slot_at_open:
  "slot_at w b i = Some s \<Longrightarrow> s \<noteq> Resolved \<Longrightarrow> open_slot w b i"
  by (auto simp: slot_at_def open_slot_def split: if_splits)

lemma poll_frame [simp]:
  "self (poll w) = self w" "timers (poll w) = timers w" "batches (poll w) = batches w"
  by (simp_all add: poll_eq)

lemma step_pending:
  assumes "step e w = Some w'" and "e \<noteq> Start"
  shows "pending w' \<le> pending w"
proof (cases e)
  case Start
  with assms show ?thesis by simp
next
  case Stop
  with assms show ?thesis by (auto simp: stop_def pending_def)
next
  case (GetMessages_cb err response)
  with assms have f: "0 < fetches w"
    and w': "w' = handleQueueServiceResponse err response (w\<lparr> fetches := fetches w - 1 \<rparr>)"
    by (auto split: if_splits)
  have "Suc (pending (w\<lparr> fetches := fetches w - 1 \<rparr>)) = pending w"
    using f by (simp add: pending_def)
  then show ?thesis
    using handleQueueServiceResponse_pending [of err response "w\<lparr> fetches := fetches w - 1 \<rparr>"] w'
    by simp
next
  case (Timeout k)
  with assms have k: "k < length (timers w)"
    and w': "w' = poll (w\<lparr> timers := take k (timers w) @ drop (Suc k) (timers w) \<rparr>)"
    by (auto split: if_splits)
  from k have "Suc (length (take k (timers w) @ drop (Suc k) (timers w))) = length (timers w)"
    by simp
  then show ?thesis unfolding w' by (simp add: pending_def poll_eq)
next
  case (Handler_cb b i err)
  with assms obtain msg where s: "slot_at w b i = Some (Handling msg)"
    and w': "w' = handler_done b i msg err w"
    by (auto split: option.splits slot.splits)
  obtain s' pre where "w' = slot_op b i s' pre w"
    using handler_done_nf [of b i msg err w] w' by auto
  then show ?thesis using slot_trans_pending [OF slot_at_open [OF s]] by simp
next
  case (DeleteMessage_cb b i err)
  with assms obtain msg where s: "slot_at w b i = Some (Deleting msg)"
    and w': "w' = deleteMessage_cb b i msg err w"
    by (auto split: option.splits slot.splits)
  obtain pre where "w' = slot_op b i Resolved pre w"
    using deleteMessage_cb_nf [of b i msg err w] w' by auto
  then show ?thesis using slot_trans_pending [OF slot_at_open [OF s]] by simp
qed

lemma start_pending:
  "pending (start w) = (if stopped (self w) then Suc (pending w) else pending w)"
  by (simp add: start_def poll_eq pending_def)

lemma step_settled:
  assumes "step e w = Some w'" and "settled w"
  shows "settled w'"
proof (cases e)
  case Start
  with assms show ?thesis
    by (auto simp: start_def poll_eq settled_def poll_action_def is_response_processed_def)
next
  case Stop
  with assms show ?thesis by (auto simp: stop_def settled_def)
next
  case (GetMessages_cb err response)
  with assms have w': "w' = handleQueueServiceResponse err response (w\<lparr> fetches := fetches w - 1 \<rparr>)"
    by (auto split: if_splits)
  have "settled (w\<lparr> fetches := fetches w - 1 \<rparr>)" using assms(2) by (simp add: settled_def)
  then show ?thesis unfolding w' by (rule handleQueueServiceResponse_settled)
next
  case (Timeout k)
  with assms have w': "w' = poll (w\<lparr> timers := take k (timers w) @ drop (Suc k) (timers w) \<rparr>)"
    by (auto split: if_splits)
  show ?thesis unfolding w' using assms(2)
    by (simp add: settled_def poll_eq)
next
  case (Handler_cb b i err)
  with assms obtain msg where s: "slot_at w b i = Some (Handling msg)"
    and w': "w' = handler_done b i msg err w"
    by (auto split: option.splits slot.splits)
  obtain s' pre where "slot_pre s' pre" "w' = slot_op b i s' pre w"
    using handler_done_nf [of b i msg err w] w' by auto
  then show ?thesis using slot_trans_settled [OF assms(2) slot_at_open [OF s]] by simp
next
  case (DeleteMessage_cb b i err)
  with assms obtain msg where s: "slot_at w b i = Some (Deleting msg)"
    and w': "w' = deleteMessage_cb b i msg err w"
    by (auto split: option.splits slot.splits)
  obtain pre where "slot_pre Resolved pre" "w' = slot_op b i Resolved pre w"
    using deleteMessage_cb_nf [of b i msg err w] w' by auto
  then show ?thesis using slot_trans_settled [OF assms(2) slot_at_open [OF s]] by simp
qed

lemma step_stopped:
  assumes "step e w = Some w'" and "e \<noteq> Start" and "stopped (self w)"
  shows "stopped (self w') \<and> filter is_fetch (trace w') = filter is_fetch (trace w)"
proof (cases e)
  case Start
  with assms show ?thesis by simp
next
  case Stop
  with assms show ?thesis by (auto simp: stop_def)
next
  case (GetMessages_cb err response)
  with assms have w': "w' = handleQueueServiceResponse err response (w\<lparr> fetches := fetches w - 1 \<rparr>)"
    by (auto split: if_splits)
  show ?thesis unfolding w'
    using handleQueueServiceResponse_stopped [of "w\<lparr> fetches := fetches w - 1 \<rparr>" err response] assms(3)
    by simp
next
  case (Timeout k)
  with assms have w': "w' = poll (w\<lparr> timers := take k (timers w) @ drop (Suc k) (timers w) \<rparr>)"
    by (auto split: if_splits)
  show ?thesis unfolding w' using assms(3) by (simp add: poll_eq)
next
  case (Handler_cb b i err)
  with assms obtain msg where w': "w' = handler_done b i msg err w"
    by (auto split: option.splits slot.splits)
  obtain s' pre where "slot_pre s' pre" "w' = slot_op b i s' pre w"
    using handler_done_nf [of b i msg err w] w' by auto
  then show ?thesis using slot_trans_fetch_calls [of s' pre w b i] assms(3) by simp
next
  case (DeleteMessage_cb b i err)
  with assms obtain msg where w': "w' = deleteMessage_cb b i msg err w"
    by (auto split: option.splits slot.splits)
  obtain pre where "slot_pre Resolved pre" "w' = slot_op b i Resolved pre w"
    using deleteMessage_cb_nf [of b i msg err w] w' by auto
  then show ?thesis using slot_trans_fetch_calls [of Resolved pre w b i] assms(3) by simp
qed

lemma slot_op_received:
  "filter is_received (trace (slot_op b i s pre w)) = filter is_received (trace w) @ filter is_received pre"
  by (simp add: slot_op_trace)

lemma series_cb_received [simp]:
  "filter is_received (trace (series_cb b i msg err w)) = filter is_received (trace w)"
  by (cases err) (simp_all add: series_cb_slot_op slot_op_trace)

lemma handler_done_received [simp]:
  "filter is_received (trace (handler_done b i msg err w)) = filter is_received (trace w)"
  by (cases err) (simp_all add: handler_done_def deleteMessage_slot_op slot_op_trace)

lemma handler_done_handler_calls [simp]:
  "handler_calls (handler_done b i msg err w) = handler_calls w"
  by (cases err) (simp_all add: handler_done_def deleteMessage_slot_op series_cb_slot_op)

lemma processMessage_received:
  "filter is_received (trace (processMessage b i msg w)) =
     filter is_received (trace w) @ [Emit (Message_received msg)]"
  by (cases "handleMessage (self w) (handler_calls w) msg")
     (simp_all add: processMessage_def emit_def set_slot_def)

lemma processMessage_handler_calls:
  "handler_calls (processMessage b i msg w) = Suc (handler_calls w)"
  by (cases "handleMessage (self w) (handler_calls w) msg")
     (simp_all add: processMessage_def emit_def set_slot_def)

lemma dispatch_received:
  "filter is_received (trace (dispatch b i msgs w)) =
     filter is_received (trace w) @ map (\<lambda>m. Emit (Message_received m)) msgs
   \<and> handler_calls (dispatch b i msgs w) = handler_calls w + length msgs"
  by (induction msgs arbitrary: i w) (simp_all add: processMessage_received processMessage_handler_calls)

lemma dispatch_slots:
  assumes "b < length (batches w)" and "i + length msgs \<le> length (batches w ! b)"
  shows "length (batches (dispatch b i msgs w)) = length (batches w)
    \<and> length (batches (dispatch b i msgs w) ! b) = length (batches w ! b)
    \<and> (\<forall>j. i \<le> j \<and> j < i + length msgs \<longrightarrow> batches (dispatch b i msgs w) ! b ! j \<noteq> Queued)
    \<and> (\<forall>j. j < i \<longrightarrow> batches (dispatch b i msgs w) ! b ! j = batches w ! b ! j)"
  using assms
proof (induction msgs arbitrary: i w)
  case Nil
  then show ?case by auto
next
  case (Cons msg msgs)
  obtain s pre where sp: "slot_pre s pre"
    and pm: "processMessage b i msg w = (slot_op b i s pre w)\<lparr> handler_calls := Suc (handler_calls w) \<rparr>"
    using processMessage_nf by blast
  let ?w' = "processMessage b i msg w"
  have bs: "batches ?w' = (batches w)[b := (batches w ! b)[i := s]]"
    unfolding pm by simp
  have s: "s \<noteq> Queued" using sp by (simp add: slot_pre_def)
  have b': "b < length (batches ?w')" and len': "Suc i + length msgs \<le> length (batches ?w' ! b)"
    using Cons.prems by (simp_all add: bs)
  note IH = Cons.IH [OF b' len']
  have i: "i < length (batches w ! b)" using Cons.prems(2) by simp
  have at_i: "batches ?w' ! b ! i = s" using Cons.prems(1) i by (simp add: bs)
  have below: "batches ?w' ! b ! j = batches w ! b ! j" if "j < i" for j
    using that Cons.prems(1) by (simp add: bs)
  show ?case
  proof (intro conjI allI impI)
    show "length (batches (dispatch b i (msg # msgs) w)) = length (batches w)"
      using IH by (simp add: bs)
    show "length (batches (dispatch b i (msg # msgs) w) ! b) = length (batches w ! b)"
      using IH Cons.prems(1) by (simp add: bs)
    show "batches (dispatch b i (msg # msgs) w) ! b ! j \<noteq> Queued"
      if "i \<le> j \<and> j < i + length (msg # msgs)" for j
    proof (cases "j = i")
      case True
      then show ?thesis using IH at_i s by simp
    next
      case False
      with that have "Suc i \<le> j \<and> j < Suc i + length msgs" by simp
      then show ?thesis using IH by simp
    qed
    show "batches (dispatch b i (msg # msgs) w) ! b ! j = batches w ! b ! j" if "j < i" for j
      using IH that below by simp
  qed
qed

lemma async_each_slots:
  "length (batches (async_each msgs w)) = Suc (length (batches w))
   \<and> length (batches (async_each msgs w) ! length (batches w)) = length msgs
   \<and> Queued \<notin> set (batches (async_each msgs w) ! length (batches w))"
proof -
  let ?w1 = "w\<lparr> batches := batches w @ [map (\<lambda>m. Queued) msgs] \<rparr>"
  let ?b = "length (batches w)"
  have "?b < length (batches ?w1)" and "0 + length msgs \<le> length (batches ?w1 ! ?b)"
    by simp_all
  from dispatch_slots [OF this]
  have len: "length (batches (async_each msgs w)) = Suc ?b"
    and n: "length (batches (async_each msgs w) ! ?b) = length msgs"
    and q: "\<forall>j. j < length msgs \<longrightarrow> batches (async_each msgs w) ! ?b ! j \<noteq> Queued"
    by (simp_all add: async_each_def)
  from n q have "Queued \<notin> set (batches (async_each msgs w) ! ?b)"
    by (metis in_set_conv_nth)
  with len n show ?thesis by simp
qed

lemma async_each_received:
  "filter is_received (trace (async_each msgs w)) =
     filter is_received (trace w) @ map (\<lambda>m. Emit (Message_received m)) msgs
   \<and> handler_calls (async_each msgs w) = handler_calls w + length msgs"
  using dispatch_received [of "length (batches w)" 0 msgs "w\<lparr> batches := batches w @ [map (\<lambda>m. Queued) msgs] \<rparr>"]
  by (simp add: async_each_def)

section \<open>Construction and defaults\<close>

lemma check_required_iff:
  "check_required options requiredOptions = None \<longleftrightarrow>
     (\<exists>q h. options.queueName options = Some q \<and> q \<noteq> [] \<and> options.handleMessage options = Some h)"
  by (auto simp: requiredOptions_def option_truthy_def split: option.splits)

lemma batchSize_check_iff:
  "(js_gt (ToNumber v) (Fin 10) \<or> js_lt (ToNumber v) (Fin 1)) \<longleftrightarrow>
     ((\<exists>r. v = Some (Fin r) \<and> (r < 1 \<or> 10 < r)) \<or> v = Some PosInf \<or> v = Some NegInf)"
  by (auto simp: js_gt_def js_lt_def ToNumber_def split: option.splits js_number.splits)

lemma validate_iff:
  "(\<exists>e. validate options = Inl e) \<longleftrightarrow>
     (options.queueName options = None \<or> options.queueName options = Some []
      \<or> options.handleMessage options = None
      \<or> (\<exists>r. options.batchSize options = Some (Fin r) \<and> (r < 1 \<or> 10 < r))
      \<or> options.batchSize options = Some PosInf \<or> options.batchSize options = Some NegInf)"
proof (cases "check_required options requiredOptions")
  case None
  then show ?thesis
    using check_required_iff [of options] batchSize_check_iff [of "options.batchSize options"]
    by (auto simp: validate_def)
next
  case (Some e)
  then have "\<not> (\<exists>q h. options.queueName options = Some q \<and> q \<noteq> [] \<and> options.handleMessage options = Some h)"
    using check_required_iff [of options] by simp
  then have "options.queueName options = None \<or> options.queueName options = Some []
      \<or> options.handleMessage options = None"
    by (cases "options.queueName options"; cases "options.handleMessage options") auto
  with Some show ?thesis by (auto simp: validate_def)
qed

lemma validate_required:
  assumes "validate options = Inr u"
  shows "\<exists>q h. options.queueName options = Some q \<and> options.handleMessage options = Some h"
proof -
  from assms have "\<not> (\<exists>e. validate options = Inl e)" by simp
  then show ?thesis
    unfolding validate_iff
    by (cases "options.queueName options"; cases "options.handleMessage options") auto
qed

lemma falsy_iff: "\<not> truthy_opt v \<longleftrightarrow> v = None \<or> v = Some NaN \<or> v = Some (Fin 0)"
  by (auto simp: truthy_opt_def truthy_def split: option.splits js_number.splits)

lemma js_or_truthy: "truthy d \<Longrightarrow> truthy (js_or v d)"
  by (auto simp: js_or_def split: option.splits)

lemma js_or_falsy: "\<not> truthy_opt v \<Longrightarrow> js_or v d = d"
  by (auto simp: js_or_def truthy_opt_def split: option.splits)

lemma js_or_given: "truthy n \<Longrightarrow> js_or (Some n) d = n"
  by (simp add: js_or_def)


lemma validate_Inr: "validate options = Inr u \<longleftrightarrow> \<not> (\<exists>e. validate options = Inl e)"
  by (cases "validate options") simp_all

lemma new_Consumer_validate_iff:
  "(\<exists>e. new_Consumer createQueueService options = Inl (Thrown_by_validate e))
     \<longleftrightarrow> (\<exists>e. validate options = Inl e)"
  by (auto simp: new_Consumer_def Let_def split: sum.splits option.splits)

lemma new_Consumer_client_iff:
  "(\<exists>e a. new_Consumer createQueueService options = Inl (Thrown_by_createQueueService e a))
     \<longleftrightarrow> (\<not> (\<exists>e. validate options = Inl e) \<and> options.queueService options = None
          \<and> (\<exists>e. createQueueService = Inl e))"
  by (cases "validate options"; cases "options.queueService options"; cases createQueueService)
     (simp_all add: new_Consumer_def Let_def)

text \<open>The fields of a consumer that was constructed, and its client.\<close>

lemma constructed_fields:
  assumes "new_Consumer createQueueService options = Inr c"
  shows "validate options = Inr ()"
    and "queueName c = the (options.queueName options)"
    and "handleMessage c = the (options.handleMessage options)"
    and "stopped c"
    and "batchSize c = js_or (options.batchSize options) (Fin 1)"
    and "pollDelaySeconds c = js_or (options.pollDelaySeconds options) (Fin 1)"
    and "maximumExecutionTimeSeconds c = js_or (options.maximumExecutionTimeSeconds options) (Fin 10)"
    and "authenticationErrorTimeoutSeconds c
          = js_or (options.authenticationErrorTimeoutSeconds options) (Fin 10)"
  using assms
  by (auto simp: new_Consumer_def Let_def consumer_fields.defs consumer.defs
        split: sum.splits option.splits)

lemma constructed_client:
  assumes "new_Consumer createQueueService options = Inr c"
  shows "options.queueService options = Some client \<Longrightarrow> queueService c = client"
    and "options.queueService options = None \<Longrightarrow> createQueueService = Inr (queueService c)"
  using assms
  by (auto simp: new_Consumer_def Let_def consumer_fields.defs consumer.defs
        split: sum.splits option.splits)

text \<open>The fields that are assigned when the creation of the client throws.\<close>

lemma abandoned_fields:
  assumes "new_Consumer createQueueService options = Inl (Thrown_by_createQueueService e a)"
  shows "validate options = Inr ()"
    and "createQueueService = Inl e"
    and "queueName a = the (options.queueName options)"
    and "handleMessage a = the (options.handleMessage options)"
    and "stopped a"
  using assms
  by (auto simp: new_Consumer_def Let_def split: sum.splits option.splits)

text \<open>
  C7, as amended: construction fails in \<open>validate\<close>, before any field is assigned,
  exactly when \<^verbatim>\<open>queueName\<close> is absent or the empty string, the handler is absent, or
  \<^verbatim>\<open>batchSize\<close> is a number below 1 or above 10 (an absent or NaN \<^verbatim>\<open>batchSize\<close> passes).
  Past \<open>validate\<close> it fails exactly when no client is given and the creation of the
  default client throws; the fields of lines 41 to 52 are assigned by then. Otherwise it
  succeeds: the consumer starts stopped, with the client given or else the one created;
  a \<^verbatim>\<open>batchSize\<close> given in range is kept, and an absent \<^verbatim>\<open>batchSize\<close>,
  \<^verbatim>\<open>pollDelaySeconds\<close>, \<^verbatim>\<open>maximumExecutionTimeSeconds\<close> or
  \<^verbatim>\<open>authenticationErrorTimeoutSeconds\<close> gets its default 1, 1, 10 or 10.
\<close>

theorem construction_fails_iff:
  "((\<exists>e. new_Consumer createQueueService options = Inl (Thrown_by_validate e)) \<longleftrightarrow>
      (options.queueName options = None \<or> options.queueName options = Some []
       \<or> options.handleMessage options = None
       \<or> (\<exists>r. options.batchSize options = Some (Fin r) \<and> (r < 1 \<or> 10 < r))
       \<or> options.batchSize options = Some PosInf \<or> options.batchSize options = Some NegInf))
   \<and> ((\<exists>e a. new_Consumer createQueueService options = Inl (Thrown_by_createQueueService e a))
        \<longleftrightarrow>
      (\<not> (\<exists>e. new_Consumer createQueueService options = Inl (Thrown_by_validate e))
       \<and> options.queueService options = None \<and> (\<exists>e. createQueueService = Inl e)))
   \<and> (\<forall>e a. new_Consumer createQueueService options = Inl (Thrown_by_createQueueService e a)
          \<longrightarrow>
          createQueueService = Inl e
          \<and> stopped a
          \<and> Some (queueName a) = options.queueName options
          \<and> Some (handleMessage a) = options.handleMessage options)
   \<and> (\<forall>c. new_Consumer createQueueService options = Inr c \<longrightarrow>
          stopped c
          \<and> Some (queueName c) = options.queueName options
          \<and> Some (handleMessage c) = options.handleMessage options
          \<and> (\<forall>client. options.queueService options = Some client \<longrightarrow> queueService c = client)
          \<and> (options.queueService options = None
                \<longrightarrow> createQueueService = Inr (queueService c))
          \<and> (\<forall>r. options.batchSize options = Some (Fin r) \<longrightarrow> batchSize c = Fin r)
          \<and> (options.batchSize options = None \<longrightarrow> batchSize c = Fin 1)
          \<and> (options.pollDelaySeconds options = None \<longrightarrow> pollDelaySeconds c = Fin 1)
          \<and> (options.maximumExecutionTimeSeconds options = None
                \<longrightarrow> maximumExecutionTimeSeconds c = Fin 10)
          \<and> (options.authenticationErrorTimeoutSeconds options = None
                \<longrightarrow> authenticationErrorTimeoutSeconds c = Fin 10))"
proof (intro conjI allI impI)
  show "(\<exists>e. new_Consumer createQueueService options = Inl (Thrown_by_validate e)) \<longleftrightarrow>
      (options.queueName options = None \<or> options.queueName options = Some []
       \<or> options.handleMessage options = None
       \<or> (\<exists>r. options.batchSize options = Some (Fin r) \<and> (r < 1 \<or> 10 < r))
       \<or> options.batchSize options = Some PosInf \<or> options.batchSize options = Some NegInf)"
    unfolding new_Consumer_validate_iff by (rule validate_iff)
next
  show "(\<exists>e a. new_Consumer createQueueService options = Inl (Thrown_by_createQueueService e a))
        \<longleftrightarrow>
      (\<not> (\<exists>e. new_Consumer createQueueService options = Inl (Thrown_by_validate e))
       \<and> options.queueService options = None \<and> (\<exists>e. createQueueService = Inl e))"
    unfolding new_Consumer_validate_iff by (rule new_Consumer_client_iff)
next
  fix e a
  assume ab: "new_Consumer createQueueService options = Inl (Thrown_by_createQueueService e a)"
  note f = abandoned_fields [OF ab]
  from validate_required [OF f(1)] obtain q h where q: "options.queueName options = Some q"
    and h: "options.handleMessage options = Some h" by blast
  show "createQueueService = Inl e" by (rule f(2))
  show "stopped a" by (rule f(5))
  show "Some (queueName a) = options.queueName options" by (simp add: f(3) q)
  show "Some (handleMessage a) = options.handleMessage options" by (simp add: f(4) h)
next
  fix c
  assume ok: "new_Consumer createQueueService options = Inr c"
  note f = constructed_fields [OF ok]
  from f(1) have nofail: "\<not> (\<exists>e. validate options = Inl e)" by simp
  from validate_required [OF f(1)] obtain q h where q: "options.queueName options = Some q"
    and h: "options.handleMessage options = Some h" by blast
  show "stopped c" by (rule f(4))
  show "Some (queueName c) = options.queueName options" by (simp add: f(2) q)
  show "Some (handleMessage c) = options.handleMessage options" by (simp add: f(3) h)
  show "queueService c = client" if "options.queueService options = Some client" for client
    using constructed_client(1) [OF ok that] .
  show "createQueueService = Inr (queueService c)" if "options.queueService options = None"
    using constructed_client(2) [OF ok that] .
  show "batchSize c = Fin r" if "options.batchSize options = Some (Fin r)" for r
  proof -
    from nofail that have "\<not> (r < 1 \<or> 10 < r)" unfolding validate_iff by simp
    then have "r \<noteq> 0" by auto
    with that show ?thesis by (simp add: f(5) js_or_def truthy_def)
  qed
  show "batchSize c = Fin 1" if "options.batchSize options = None"
    using that by (simp add: f(5) js_or_def)
  show "pollDelaySeconds c = Fin 1" if "options.pollDelaySeconds options = None"
    using that by (simp add: f(6) js_or_def)
  show "maximumExecutionTimeSeconds c = Fin 10" if "options.maximumExecutionTimeSeconds options = None"
    using that by (simp add: f(7) js_or_def)
  show "authenticationErrorTimeoutSeconds c = Fin 10"
    if "options.authenticationErrorTimeoutSeconds options = None"
    using that by (simp add: f(8) js_or_def)
qed

theorem construction_defaults_witness:
  "new_Consumer (Inr example_client) example_options = Inr example_consumer
   \<and> options.queueService example_options = None
   \<and> queueService example_consumer = example_client
   \<and> stopped example_consumer
   \<and> batchSize example_consumer = Fin 1
   \<and> pollDelaySeconds example_consumer = Fin 1
   \<and> maximumExecutionTimeSeconds example_consumer = Fin 10
   \<and> authenticationErrorTimeoutSeconds example_consumer = Fin 10
   \<and> new_Consumer (Inl credentials_error) example_options
       = Inl (Thrown_by_createQueueService credentials_error
                (consumer_fields.truncate example_consumer))
   \<and> stopped (consumer_fields.truncate example_consumer)"
proof -
  have ok: "new_Consumer (Inr example_client) example_options = Inr example_consumer"
    by (simp add: new_Consumer_def validate_def requiredOptions_def option_truthy_def
          example_options_def example_consumer_def js_or_def js_gt_def js_lt_def ToNumber_def
          consumer_fields.defs consumer.defs)
  have ab: "new_Consumer (Inl credentials_error) example_options
       = Inl (Thrown_by_createQueueService credentials_error
                (consumer_fields.truncate example_consumer))"
    by (simp add: new_Consumer_def validate_def requiredOptions_def option_truthy_def
          example_options_def example_consumer_def js_or_def js_gt_def js_lt_def ToNumber_def
          consumer_fields.defs consumer.defs)
  have absent: "options.batchSize example_options = None"
    "options.pollDelaySeconds example_options = None"
    "options.maximumExecutionTimeSeconds example_options = None"
    "options.authenticationErrorTimeoutSeconds example_options = None"
    "options.queueService example_options = None"
    by (simp_all add: example_options_def)
  from construction_fails_iff [of "Inr example_client" example_options] ok absent
  have "Inr example_client = Inr (queueService example_consumer)
    \<and> stopped example_consumer
    \<and> batchSize example_consumer = Fin 1
    \<and> pollDelaySeconds example_consumer = Fin 1
    \<and> maximumExecutionTimeSeconds example_consumer = Fin 10
    \<and> authenticationErrorTimeoutSeconds example_consumer = Fin 10"
    by simp
  moreover from construction_fails_iff [of "Inl credentials_error" example_options] ab
  have "stopped (consumer_fields.truncate example_consumer)" by blast
  ultimately show ?thesis using ok ab absent by simp
qed

theorem construction_fails_beyond_the_claim:
  "options.queueName (example_options\<lparr> options.queueName := Some [] \<rparr>) = Some []
   \<and> options.handleMessage (example_options\<lparr> options.queueName := Some [] \<rparr>) = Some example_handler
   \<and> options.batchSize (example_options\<lparr> options.queueName := Some [] \<rparr>) = None
   \<and> new_Consumer (Inr example_client) (example_options\<lparr> options.queueName := Some [] \<rparr>) =
       Inl (Thrown_by_validate (Error_new ''Missing queue service consumer option [queueName].''))
   \<and> options.queueName example_options = Some ''jobs''
   \<and> options.handleMessage example_options = Some example_handler
   \<and> options.batchSize example_options = None
   \<and> new_Consumer (Inl credentials_error) example_options
       = Inl (Thrown_by_createQueueService credentials_error
                (consumer_fields.truncate example_consumer))"
  by (simp add: new_Consumer_def validate_def requiredOptions_def option_truthy_def
        example_options_def example_consumer_def js_or_def js_gt_def js_lt_def ToNumber_def
        consumer_fields.defs consumer.defs)

text \<open>
  C10: a falsy value (absent, 0 or NaN) of \<^verbatim>\<open>pollDelaySeconds\<close>,
  \<^verbatim>\<open>maximumExecutionTimeSeconds\<close> or \<^verbatim>\<open>authenticationErrorTimeoutSeconds\<close> is replaced
  by the default 1, 10 or 10, so none of the three is ever 0 in a consumer; a falsy
  \<^verbatim>\<open>batchSize\<close> that passes \<open>validate\<close> becomes 1.
\<close>

theorem falsy_option_defaults:
  assumes "new_Consumer createQueueService options = Inr c"
  shows "(\<not> truthy_opt (options.pollDelaySeconds options) \<longrightarrow> pollDelaySeconds c = Fin 1)
    \<and> (\<not> truthy_opt (options.maximumExecutionTimeSeconds options)
          \<longrightarrow> maximumExecutionTimeSeconds c = Fin 10)
    \<and> (\<not> truthy_opt (options.authenticationErrorTimeoutSeconds options)
          \<longrightarrow> authenticationErrorTimeoutSeconds c = Fin 10)
    \<and> (\<not> truthy_opt (options.batchSize options) \<longrightarrow> batchSize c = Fin 1)
    \<and> (options.pollDelaySeconds options = Some (Fin 0) \<longrightarrow> pollDelaySeconds c = Fin 1)
    \<and> (options.maximumExecutionTimeSeconds options = Some (Fin 0)
          \<longrightarrow> maximumExecutionTimeSeconds c = Fin 10)
    \<and> (options.authenticationErrorTimeoutSeconds options = Some (Fin 0)
          \<longrightarrow> authenticationErrorTimeoutSeconds c = Fin 10)
    \<and> pollDelaySeconds c \<noteq> Fin 0 \<and> maximumExecutionTimeSeconds c \<noteq> Fin 0
    \<and> authenticationErrorTimeoutSeconds c \<noteq> Fin 0 \<and> batchSize c \<noteq> Fin 0
    \<and> js_mul (pollDelaySeconds c) (Fin 1000) \<noteq> Fin 0
    \<and> js_mul (maximumExecutionTimeSeconds c) (Fin 1000) \<noteq> Fin 0"
proof -
  note f = constructed_fields [OF assms]
  have zero: "\<not> truthy_opt (Some (Fin 0))" by (simp add: truthy_opt_def truthy_def)
  have t: "truthy (js_or v (Fin 1))" "truthy (js_or v (Fin 10))" for v
    by (rule js_or_truthy, simp add: truthy_def)+
  have nz: "truthy n \<Longrightarrow> n \<noteq> Fin 0" for n by (auto simp: truthy_def)
  have mul: "truthy n \<Longrightarrow> js_mul n (Fin 1000) \<noteq> Fin 0" for n
    by (cases n) (auto simp: truthy_def js_mul_def js_sign_def)
  have facts: "js_or v (Fin 1) \<noteq> Fin 0" "js_or v (Fin 10) \<noteq> Fin 0"
    "js_mul (js_or v (Fin 1)) (Fin 1000) \<noteq> Fin 0"
    "js_mul (js_or v (Fin 10)) (Fin 1000) \<noteq> Fin 0" for v
    using nz [OF t(1)] nz [OF t(2)] mul [OF t(1)] mul [OF t(2)] by blast+
  show ?thesis
    unfolding f(5-8) using zero by (simp add: js_or_falsy facts)
qed

theorem falsy_option_defaults_witness:
  "new_Consumer (Inl credentials_error) falsy_options = Inr example_consumer
   \<and> \<not> truthy_opt (options.pollDelaySeconds falsy_options)
   \<and> \<not> truthy_opt (options.maximumExecutionTimeSeconds falsy_options)
   \<and> \<not> truthy_opt (options.authenticationErrorTimeoutSeconds falsy_options)
   \<and> \<not> truthy_opt (options.batchSize falsy_options)
   \<and> pollDelaySeconds example_consumer = Fin 1
   \<and> maximumExecutionTimeSeconds example_consumer = Fin 10
   \<and> authenticationErrorTimeoutSeconds example_consumer = Fin 10
   \<and> batchSize example_consumer = Fin 1"
proof -
  have ok: "new_Consumer (Inl credentials_error) falsy_options = Inr example_consumer"
    by (simp add: new_Consumer_def validate_def requiredOptions_def option_truthy_def
          falsy_options_def example_consumer_def js_or_def js_gt_def js_lt_def ToNumber_def
          truthy_def consumer_fields.defs consumer.defs)
  have falsy: "\<not> truthy_opt (options.pollDelaySeconds falsy_options)"
    "\<not> truthy_opt (options.maximumExecutionTimeSeconds falsy_options)"
    "\<not> truthy_opt (options.authenticationErrorTimeoutSeconds falsy_options)"
    "\<not> truthy_opt (options.batchSize falsy_options)"
    by (simp_all add: falsy_options_def truthy_opt_def truthy_def)
  from falsy_option_defaults [OF ok] ok falsy show ?thesis by simp
qed

section \<open>Starting and fetching\<close>

text \<open>
  C6: \<open>start\<close> on a stopped consumer marks it running and issues exactly one fetch,
  changing nothing else; \<open>start\<close> on a running consumer changes nothing, so a second
  \<open>start\<close> in a row has no effect.
\<close>

theorem start_once:
  "step Start w =
     Some (if stopped (self w)
           then w\<lparr> self := (self w)\<lparr> stopped := False \<rparr>,
                   fetches := Suc (fetches w),
                   trace := trace w @
                     [GetMessages (queueName (self w))
                        \<lparr> numOfMessages = batchSize (self w),
                          maximumExecutionTimeInMs =
                            js_mul (maximumExecutionTimeSeconds (self w)) (Fin 1000),
                          rp_visibilityTimeout = visibilityTimeout (self w) \<rparr>] \<rparr>
           else w)
   \<and> run [Start, Start] w = run [Start] w"
  by (simp add: start_def poll_def Let_def)

theorem start_once_witness:
  "stopped (self (init example_consumer))
   \<and> map_option (\<lambda>w. stopped (self w)) (step Start (init example_consumer)) = Some False
   \<and> map_option fetches (step Start (init example_consumer)) = Some 1
   \<and> map_option trace (step Start (init example_consumer)) =
       Some [GetMessages ''jobs'' example_params]
   \<and> map_option fetches (run [Start, Start] (init example_consumer)) = Some 1
   \<and> map_option trace (run [Start, Start] (init example_consumer)) =
       Some [GetMessages ''jobs'' example_params]"
  using start_once [of "init example_consumer"]
  by (simp add: init_def example_consumer_def example_params_def js_mul_def start_def poll_def)

text \<open>
  C2: a fetch that completes with no message (no response, or an empty one) sets one
  timer that polls when it fires, and issues no fetch itself. With an authentication
  error (status code 403 or code \<^verbatim>\<open>CredentialsError\<close>) exactly one \<^verbatim>\<open>error\<close> signal is
  emitted and the delay is \<^verbatim>\<open>authenticationErrorTimeoutSeconds\<close>; with no error, or with
  another error, the delay is \<^verbatim>\<open>pollDelaySeconds\<close>.
\<close>

theorem empty_fetch_repoll:
  assumes "0 < fetches w" and "response = None \<or> response = Some []"
  shows "step (GetMessages_cb err response) w =
      Some (case err of
              None \<Rightarrow>
                w\<lparr> fetches := fetches w - 1,
                   timers := timers w @ [js_mul (pollDelaySeconds (self w)) (Fin 1000)],
                   trace := trace w @ [SetTimeout (js_mul (pollDelaySeconds (self w)) (Fin 1000))] \<rparr>
            | Some e \<Rightarrow>
                if statusCode e = Some (Fin 403) \<or> code e = Some ''CredentialsError''
                then w\<lparr> fetches := fetches w - 1,
                        timers := timers w
                          @ [js_mul (authenticationErrorTimeoutSeconds (self w)) (Fin 1000)],
                        trace := trace w
                          @ [Emit (Error (QueueServiceError
                                [''Queue service receive message failed: '' @ message e]) None),
                             SetTimeout
                               (js_mul (authenticationErrorTimeoutSeconds (self w)) (Fin 1000))] \<rparr>
                else w\<lparr> fetches := fetches w - 1,
                        timers := timers w @ [js_mul (pollDelaySeconds (self w)) (Fin 1000)],
                        trace := trace w
                          @ [Emit (Error (QueueServiceError
                                [''Queue service receive message failed: '' @ message e]) None),
                             SetTimeout (js_mul (pollDelaySeconds (self w)) (Fin 1000))] \<rparr>)
    \<and> (\<forall>w'. step (GetMessages_cb err response) w = Some w' \<longrightarrow>
          step (Timeout (length (timers w))) w' = Some (poll (w'\<lparr> timers := timers w \<rparr>)))"
proof -
  let ?w0 = "w\<lparr> fetches := fetches w - 1 \<rparr>"
  have st: "step (GetMessages_cb err response) w =
      Some (setTimeout (repoll_delay err (self w)) (report_fetch_error err ?w0))"
    using assms handleQueueServiceResponse_empty [of response err ?w0] by simp
  have shape: "setTimeout (repoll_delay err (self w)) (report_fetch_error err ?w0) =
      (case err of
              None \<Rightarrow>
                w\<lparr> fetches := fetches w - 1,
                   timers := timers w @ [js_mul (pollDelaySeconds (self w)) (Fin 1000)],
                   trace := trace w @ [SetTimeout (js_mul (pollDelaySeconds (self w)) (Fin 1000))] \<rparr>
            | Some e \<Rightarrow>
                if statusCode e = Some (Fin 403) \<or> code e = Some ''CredentialsError''
                then w\<lparr> fetches := fetches w - 1,
                        timers := timers w
                          @ [js_mul (authenticationErrorTimeoutSeconds (self w)) (Fin 1000)],
                        trace := trace w
                          @ [Emit (Error (QueueServiceError
                                [''Queue service receive message failed: '' @ message e]) None),
                             SetTimeout
                               (js_mul (authenticationErrorTimeoutSeconds (self w)) (Fin 1000))] \<rparr>
                else w\<lparr> fetches := fetches w - 1,
                        timers := timers w @ [js_mul (pollDelaySeconds (self w)) (Fin 1000)],
                        trace := trace w
                          @ [Emit (Error (QueueServiceError
                                [''Queue service receive message failed: '' @ message e]) None),
                             SetTimeout (js_mul (pollDelaySeconds (self w)) (Fin 1000))] \<rparr>)"
    by (cases err)
       (simp_all add: setTimeout_def repoll_delay_def report_fetch_error_def emit_def
          isAuthenticationError_def)
  have fire: "step (Timeout (length (timers w))) (setTimeout ms v) = Some (poll ((setTimeout ms v)\<lparr> timers := timers w \<rparr>))"
    if "timers v = timers w" for ms v
    using that by (simp add: setTimeout_def)
  have t: "timers (report_fetch_error err ?w0) = timers w" by simp
  show ?thesis
  proof (intro conjI allI impI)
    show "step (GetMessages_cb err response) w = Some (case err of
              None \<Rightarrow>
                w\<lparr> fetches := fetches w - 1,
                   timers := timers w @ [js_mul (pollDelaySeconds (self w)) (Fin 1000)],
                   trace := trace w @ [SetTimeout (js_mul (pollDelaySeconds (self w)) (Fin 1000))] \<rparr>
            | Some e \<Rightarrow>
                if statusCode e = Some (Fin 403) \<or> code e = Some ''CredentialsError''
                then w\<lparr> fetches := fetches w - 1,
                        timers := timers w
                          @ [js_mul (authenticationErrorTimeoutSeconds (self w)) (Fin 1000)],
                        trace := trace w
                          @ [Emit (Error (QueueServiceError
                                [''Queue service receive message failed: '' @ message e]) None),
                             SetTimeout
                               (js_mul (authenticationErrorTimeoutSeconds (self w)) (Fin 1000))] \<rparr>
                else w\<lparr> fetches := fetches w - 1,
                        timers := timers w @ [js_mul (pollDelaySeconds (self w)) (Fin 1000)],
                        trace := trace w
                          @ [Emit (Error (QueueServiceError
                                [''Queue service receive message failed: '' @ message e]) None),
                             SetTimeout (js_mul (pollDelaySeconds (self w)) (Fin 1000))] \<rparr>)"
      unfolding st shape ..
  next
    fix w'
    assume "step (GetMessages_cb err response) w = Some w'"
    with st have "w' = setTimeout (repoll_delay err (self w)) (report_fetch_error err ?w0)"
      by simp
    then show "step (Timeout (length (timers w))) w' = Some (poll (w'\<lparr> timers := timers w \<rparr>))"
      using fire [OF t] by simp
  qed
qed

theorem empty_fetch_repoll_witness:
  "0 < fetches (the (step Start (init example_consumer)))
   \<and> map_option timers
        (run [Start, GetMessages_cb (Some forbidden_error) (Some [])] (init example_consumer))
       = Some [Fin 10000]
   \<and> map_option fetches
        (run [Start, GetMessages_cb (Some forbidden_error) (Some [])] (init example_consumer))
       = Some 0
   \<and> map_option trace
        (run [Start, GetMessages_cb (Some forbidden_error) (Some [])] (init example_consumer))
       = Some [GetMessages ''jobs'' example_params,
               Emit (Error (QueueServiceError
                 [''Queue service receive message failed: Forbidden'']) None),
               SetTimeout (Fin 10000)]"
proof -
  let ?w = "the (step Start (init example_consumer))"
  have f: "0 < fetches ?w" by (simp add: start_def poll_def init_def example_consumer_def)
  have r: "Some ([]::queue_message list) = None \<or> Some ([]::queue_message list) = Some []" by simp
  have run: "run [Start, GetMessages_cb (Some forbidden_error) (Some [])] (init example_consumer)
      = step (GetMessages_cb (Some forbidden_error) (Some [])) ?w"
    by simp
  show ?thesis
    unfolding run using f empty_fetch_repoll [OF f r, of "Some forbidden_error"]
    by (simp add: forbidden_error_def start_def poll_def init_def example_consumer_def
          example_params_def js_mul_def)
qed

section \<open>The outcome of a message\<close>

lemma series_cb_outcome:
  "filter is_outcome (trace (series_cb b i msg err w)) =
     filter is_outcome (trace w)
       @ [Emit (case err of
                  Some e \<Rightarrow> if name e = ''QueueServiceError'' then Error e (Some msg)
                            else Processing_error e msg
                | None \<Rightarrow> Message_processed msg)]
   \<and> filter is_delete (trace (series_cb b i msg err w)) = filter is_delete (trace w)"
  by (cases err)
     (simp_all add: series_cb_slot_op slot_op_trace QueueServiceError_name_def)

lemma handler_done_outcome:
  "filter is_outcome (trace (handler_done b i msg err w)) =
     filter is_outcome (trace w)
       @ (case err of
            Some e \<Rightarrow> [Emit (if name e = ''QueueServiceError'' then Error e (Some msg)
                             else Processing_error e msg)]
          | None \<Rightarrow> [])
   \<and> filter is_delete (trace (handler_done b i msg err w)) =
     filter is_delete (trace w)
       @ (case err of
            Some e \<Rightarrow> []
          | None \<Rightarrow> [DeleteMessage (queueName (self w)) (messageId msg) (popReceipt msg)])"
  using series_cb_outcome [of b i msg err w]
  by (cases err) (simp_all add: handler_done_def deleteMessage_slot_op slot_op_trace)

lemma deleteMessage_cb_outcome:
  "filter is_outcome (trace (deleteMessage_cb b i msg err w)) =
     filter is_outcome (trace w)
       @ [Emit (case err of
                  Some e \<Rightarrow>
                    Error (QueueServiceError
                             [''Queue service delete message failed: '' @ message e]) (Some msg)
                | None \<Rightarrow> Message_processed msg)]
   \<and> filter is_delete (trace (deleteMessage_cb b i msg err w)) = filter is_delete (trace w)"
proof (cases err)
  case None
  then show ?thesis using series_cb_outcome [of b i msg None w] by (simp add: deleteMessage_cb_def)
next
  case (Some e)
  then show ?thesis
    using series_cb_outcome [of b i msg
        "Some (QueueServiceError [''Queue service delete message failed: '' @ message e])" w]
    by (simp add: deleteMessage_cb_def QueueServiceError_def QueueServiceError_name_def)
qed

lemma processMessage_outcome:
  "filter is_outcome (trace (processMessage b i msg w)) =
     filter is_outcome (trace w)
       @ (case handleMessage (self w) (handler_calls w) msg of
            Throws thrown \<Rightarrow>
              [Emit (Processing_error
                 (Error_new (''Unexpected message handler failure: '' @ message thrown)) msg)]
          | Done_now (Some e) \<Rightarrow>
              [Emit (if name e = ''QueueServiceError'' then Error e (Some msg)
                     else Processing_error e msg)]
          | Done_now None \<Rightarrow> []
          | Done_later \<Rightarrow> [])
   \<and> filter is_delete (trace (processMessage b i msg w)) =
     filter is_delete (trace w)
       @ (case handleMessage (self w) (handler_calls w) msg of
            Done_now None \<Rightarrow>
              [DeleteMessage (queueName (self w)) (messageId msg) (popReceipt msg)]
          | _ \<Rightarrow> [])"
proof -
  let ?w1 = "(emit (Message_received msg) w)\<lparr> handler_calls := Suc (handler_calls w) \<rparr>"
  have w1: "filter is_outcome (trace ?w1) = filter is_outcome (trace w)"
    "filter is_delete (trace ?w1) = filter is_delete (trace w)" "self ?w1 = self w"
    by (simp_all add: emit_def)
  show ?thesis
  proof (cases "handleMessage (self w) (handler_calls w) msg")
    case (Throws thrown)
    then show ?thesis
      using handler_done_outcome [of b i msg
          "Some (Error_new (''Unexpected message handler failure: '' @ message thrown))" ?w1] w1
      by (simp add: processMessage_def Error_new_def)
  next
    case (Done_now err)
    then show ?thesis
      using handler_done_outcome [of b i msg err ?w1] w1
      by (cases err) (simp_all add: processMessage_def)
  next
    case Done_later
    then show ?thesis using w1 by (simp add: processMessage_def set_slot_def)
  qed
qed

lemma run_append:
  "run (es @ es') w = (case run es w of None \<Rightarrow> None | Some w' \<Rightarrow> run es' w')"
  by (induction es arbitrary: w) (simp_all split: option.splits)

lemma run_snoc: "run es w = Some w' \<Longrightarrow> run (es @ [e]) w = step e w'"
  by (simp add: run_append split: option.splits)

lemma step_Handler_cb:
  "slot_at w b i = Some (Handling msg) \<Longrightarrow>
     step (Handler_cb b i err) w = Some (handler_done b i msg err w)"
  by simp

lemma step_DeleteMessage_cb:
  "slot_at w b i = Some (Deleting msg) \<Longrightarrow>
     step (DeleteMessage_cb b i err) w = Some (deleteMessage_cb b i msg err w)"
  by simp

text \<open>
  C8: a fetch that completes with one or more messages dispatches every one of them,
  whatever error came with them: each message is announced and handed to the handler,
  in order, no timer is set, and the error adds nothing but its \<^verbatim>\<open>error\<close> signal before
  the dispatch.
\<close>

theorem messages_win_over_error:
  assumes "0 < fetches w"
  shows "\<exists>w'. step (GetMessages_cb err (Some (m # ms))) w = Some w'
    \<and> w' = async_each (m # ms)
             (case err of
                None \<Rightarrow> w\<lparr> fetches := fetches w - 1 \<rparr>
              | Some e \<Rightarrow>
                  emit (Error (QueueServiceError
                          [''Queue service receive message failed: '' @ message e]) None)
                    (w\<lparr> fetches := fetches w - 1 \<rparr>))
    \<and> timers w' = timers w
    \<and> filter is_timeout (trace w') = filter is_timeout (trace w)
    \<and> filter is_received (trace w') =
        filter is_received (trace w) @ map (\<lambda>x. Emit (Message_received x)) (m # ms)
    \<and> handler_calls w' = handler_calls w + length (m # ms)
    \<and> length (batches w') = Suc (length (batches w))
    \<and> length (batches w' ! length (batches w)) = length (m # ms)
    \<and> Queued \<notin> set (batches w' ! length (batches w))"
proof -
  let ?w0 = "w\<lparr> fetches := fetches w - 1 \<rparr>"
  let ?w1 = "report_fetch_error err ?w0"
  let ?w' = "async_each (m # ms) ?w1"
  have st: "step (GetMessages_cb err (Some (m # ms))) w = Some ?w'"
    using assms by (simp add: handleQueueServiceResponse_batch del: dispatch.simps)
  have w1: "?w1 = (case err of
                None \<Rightarrow> w\<lparr> fetches := fetches w - 1 \<rparr>
              | Some e \<Rightarrow>
                  emit (Error (QueueServiceError
                          [''Queue service receive message failed: '' @ message e]) None)
                    (w\<lparr> fetches := fetches w - 1 \<rparr>))"
    unfolding report_fetch_error_def ..
  have r: "filter is_received (trace ?w1) = filter is_received (trace w)"
    "handler_calls ?w1 = handler_calls w"
    by (cases err; simp add: report_fetch_error_def emit_def)+
  have fr: "timers ?w' = timers w" "filter is_timeout (trace ?w') = filter is_timeout (trace w)"
    using async_each_frame [of "m # ms" ?w1] by simp_all
  have rc: "filter is_received (trace ?w') =
        filter is_received (trace w) @ map (\<lambda>x. Emit (Message_received x)) (m # ms)"
    "handler_calls ?w' = handler_calls w + length (m # ms)"
    using async_each_received [of "m # ms" ?w1] r by simp_all
  have sl: "length (batches ?w') = Suc (length (batches w))"
    "length (batches ?w' ! length (batches w)) = length (m # ms)"
    "Queued \<notin> set (batches ?w' ! length (batches w))"
    using async_each_slots [of "m # ms" ?w1] by simp_all
  show ?thesis
  proof (intro exI conjI)
    show "step (GetMessages_cb err (Some (m # ms))) w = Some ?w'" by (rule st)
    show "?w' = async_each (m # ms)
             (case err of
                None \<Rightarrow> w\<lparr> fetches := fetches w - 1 \<rparr>
              | Some e \<Rightarrow>
                  emit (Error (QueueServiceError
                          [''Queue service receive message failed: '' @ message e]) None)
                    (w\<lparr> fetches := fetches w - 1 \<rparr>))"
      by (simp only: w1)
  qed (fact fr rc sl)+
qed

theorem messages_win_over_error_witness:
  "0 < fetches (the (step Start (init example_consumer)))
   \<and> map_option timers
        (run [Start, GetMessages_cb (Some forbidden_error) (Some [example_message])]
           (init example_consumer)) = Some []
   \<and> map_option batches
        (run [Start, GetMessages_cb (Some forbidden_error) (Some [example_message])]
           (init example_consumer)) = Some [[Handling example_message]]
   \<and> map_option trace
        (run [Start, GetMessages_cb (Some forbidden_error) (Some [example_message])]
           (init example_consumer))
       = Some [GetMessages ''jobs'' example_params,
               Emit (Error (QueueServiceError
                 [''Queue service receive message failed: Forbidden'']) None),
               Emit (Message_received example_message)]"
proof -
  let ?w = "the (step Start (init example_consumer))"
  have f: "0 < fetches ?w" by (simp add: start_def poll_def init_def example_consumer_def)
  have run: "run [Start, GetMessages_cb (Some forbidden_error) (Some [example_message])]
        (init example_consumer)
      = step (GetMessages_cb (Some forbidden_error) (Some [example_message])) ?w"
    by simp
  from messages_win_over_error [OF f, of "Some forbidden_error" example_message "[]"]
  obtain w' where
    "step (GetMessages_cb (Some forbidden_error) (Some [example_message])) ?w = Some w'"
    and "w' = async_each [example_message]
           (emit (Error (QueueServiceError
               [''Queue service receive message failed: '' @ message forbidden_error]) None)
              (?w\<lparr> fetches := fetches ?w - 1 \<rparr>))"
    by auto
  then show ?thesis
    unfolding run using f
    by (simp add: async_each_def processMessage_def set_slot_def emit_def forbidden_error_def
          start_def poll_def init_def example_consumer_def example_handler_def
          example_params_def js_mul_def)
qed

text \<open>
  C9: whether a failed message is reported with \<^verbatim>\<open>error\<close> or with \<^verbatim>\<open>processing_error\<close>
  depends on nothing but the comparison of the error's \<^verbatim>\<open>name\<close> with
  \<^verbatim>\<open>QueueServiceError\<close>. An error the handler reports under that name, from its callback
  or before it returns, is emitted as \<^verbatim>\<open>error\<close>, not as \<^verbatim>\<open>processing_error\<close>, and the
  message is not deleted.
\<close>

theorem handler_error_named_like_queue_service:
  assumes "name e = ''QueueServiceError''"
  shows "(slot_at w b i = Some (Handling msg) \<longrightarrow>
           (\<exists>w'. step (Handler_cb b i (Some e)) w = Some w'
              \<and> filter is_outcome (trace w') =
                  filter is_outcome (trace w) @ [Emit (Error e (Some msg))]
              \<and> filter is_delete (trace w') = filter is_delete (trace w)))
    \<and> (handleMessage (self v) (handler_calls v) msg = Done_now (Some e) \<longrightarrow>
           filter is_outcome (trace (processMessage b i msg v)) =
             filter is_outcome (trace v) @ [Emit (Error e (Some msg))]
           \<and> filter is_delete (trace (processMessage b i msg v)) = filter is_delete (trace v))
    \<and> (\<forall>e'. filter is_outcome (trace (series_cb b i msg (Some e') w)) =
           filter is_outcome (trace w)
             @ [Emit (if name e' = ''QueueServiceError'' then Error e' (Some msg)
                      else Processing_error e' msg)])"
  using assms handler_done_outcome [of b i msg "Some e" w] processMessage_outcome [of b i msg v]
    series_cb_outcome [of b i msg _ w]
  by (auto simp: step_Handler_cb)

theorem handler_error_named_like_queue_service_witness:
  "name named_error = ''QueueServiceError''
   \<and> map_option (\<lambda>w. slot_at w 0 0)
        (run [Start, GetMessages_cb None (Some [example_message])] (init example_consumer))
       = Some (Some (Handling example_message))
   \<and> map_option trace
        (run [Start, GetMessages_cb None (Some [example_message]),
              Handler_cb 0 0 (Some named_error)] (init example_consumer))
       = Some [GetMessages ''jobs'' example_params,
               Emit (Message_received example_message),
               Emit (Error named_error (Some example_message)),
               Emit Response_processed,
               GetMessages ''jobs'' example_params]
   \<and> handleMessage (example_consumer\<lparr> handleMessage := failing_handler \<rparr>) 0 example_message
       = Done_now (Some named_error)
   \<and> filter is_outcome
        (trace (processMessage 0 0 example_message
                  (init (example_consumer\<lparr> handleMessage := failing_handler \<rparr>))))
       = [Emit (Error named_error (Some example_message))]"
proof -
  let ?w = "the (run [Start, GetMessages_cb None (Some [example_message])] (init example_consumer))"
  let ?v = "init (example_consumer\<lparr> handleMessage := failing_handler \<rparr>)"
  have n: "name named_error = ''QueueServiceError''" by (simp add: named_error_def)
  have w: "run [Start, GetMessages_cb None (Some [example_message])] (init example_consumer)
      = Some \<lparr> self = example_consumer\<lparr> stopped := False \<rparr>, handler_calls = 1, fetches = 0,
               timers = [], batches = [[Handling example_message]],
               trace = [GetMessages ''jobs'' example_params,
                        Emit (Message_received example_message)] \<rparr>"
    by (simp add: start_def poll_def init_def handleQueueServiceResponse_def async_each_def
          processMessage_def set_slot_def emit_def example_consumer_def example_handler_def
          example_params_def js_mul_def)
  have s: "slot_at ?w 0 0 = Some (Handling example_message)"
    unfolding w by (simp add: slot_at_def)
  have h: "handleMessage (self ?v) (handler_calls ?v) example_message = Done_now (Some named_error)"
    by (simp add: init_def failing_handler_def)
  have run: "run [Start, GetMessages_cb None (Some [example_message]),
              Handler_cb 0 0 (Some named_error)] (init example_consumer)
      = step (Handler_cb 0 0 (Some named_error)) ?w"
    using run_snoc [OF w, of "Handler_cb 0 0 (Some named_error)"] unfolding w by simp
  from handler_error_named_like_queue_service [OF n, of ?w 0 0 example_message ?v] s h
  have "filter is_outcome (trace (processMessage 0 0 example_message ?v))
      = filter is_outcome (trace ?v) @ [Emit (Error named_error (Some example_message))]"
    by blast
  then have sync: "filter is_outcome (trace (processMessage 0 0 example_message ?v))
      = [Emit (Error named_error (Some example_message))]"
    by (simp add: init_def)
  have async: "map_option trace (step (Handler_cb 0 0 (Some named_error)) ?w)
       = Some [GetMessages ''jobs'' example_params,
               Emit (Message_received example_message),
               Emit (Error named_error (Some example_message)),
               Emit Response_processed,
               GetMessages ''jobs'' example_params]"
    unfolding w
    by (simp add: slot_at_def handler_done_def series_cb_def each_cb_def set_slot_def emit_def
          poll_def all_resolved_def named_error_def QueueServiceError_name_def
          example_consumer_def example_params_def js_mul_def)
  show ?thesis
    unfolding run using n s h sync async unfolding w by (simp add: init_def)
qed

text \<open>
  C1, as amended: a message's outcome is settled by one signal. When the handler fails,
  no delete call is made, and the signal is \<^verbatim>\<open>processing_error\<close> with the error and the
  message unless the error's \<^verbatim>\<open>name\<close> is \<^verbatim>\<open>QueueServiceError\<close>, when it is \<^verbatim>\<open>error\<close>; a
  handler that throws is caught, and the error reported is a plain \<^verbatim>\<open>Error\<close> that wraps
  the message of what was thrown, so its signal is \<^verbatim>\<open>processing_error\<close>. When the
  handler succeeds the message is deleted by its identifier and pop receipt; a failed
  delete call gives \<^verbatim>\<open>error\<close> with a \<^verbatim>\<open>QueueServiceError\<close> that wraps the failure's
  message, and the message; a successful one gives \<^verbatim>\<open>message_processed\<close>.
\<close>

theorem message_outcome:
  "(slot_at w b i = Some (Handling msg) \<longrightarrow>
      (\<exists>w'. step (Handler_cb b i err) w = Some w'
         \<and> filter is_outcome (trace w') =
             filter is_outcome (trace w)
               @ (case err of
                    Some e \<Rightarrow> [Emit (if name e = ''QueueServiceError'' then Error e (Some msg)
                                     else Processing_error e msg)]
                  | None \<Rightarrow> [])
         \<and> filter is_delete (trace w') =
             filter is_delete (trace w)
               @ (case err of
                    Some e \<Rightarrow> []
                  | None \<Rightarrow> [DeleteMessage (queueName (self w)) (messageId msg) (popReceipt msg)])))
   \<and> (slot_at w b j = Some (Deleting msg') \<longrightarrow>
      (\<exists>w'. step (DeleteMessage_cb b j err') w = Some w'
         \<and> filter is_outcome (trace w') =
             filter is_outcome (trace w)
               @ [Emit (case err' of
                          Some e \<Rightarrow>
                            Error (QueueServiceError
                                     [''Queue service delete message failed: '' @ message e])
                              (Some msg')
                        | None \<Rightarrow> Message_processed msg')]
         \<and> filter is_delete (trace w') = filter is_delete (trace w)))
   \<and> filter is_outcome (trace (processMessage b i msg v)) =
       filter is_outcome (trace v)
         @ (case handleMessage (self v) (handler_calls v) msg of
              Throws thrown \<Rightarrow>
                [Emit (Processing_error
                   (Error_new (''Unexpected message handler failure: '' @ message thrown)) msg)]
            | Done_now (Some e) \<Rightarrow>
                [Emit (if name e = ''QueueServiceError'' then Error e (Some msg)
                       else Processing_error e msg)]
            | Done_now None \<Rightarrow> []
            | Done_later \<Rightarrow> [])
   \<and> filter is_delete (trace (processMessage b i msg v)) =
       filter is_delete (trace v)
         @ (case handleMessage (self v) (handler_calls v) msg of
              Done_now None \<Rightarrow>
                [DeleteMessage (queueName (self v)) (messageId msg) (popReceipt msg)]
            | _ \<Rightarrow> [])"
  using handler_done_outcome [of b i msg err w] deleteMessage_cb_outcome [of b j msg' err' w]
    processMessage_outcome [of b i msg v]
  by (simp add: step_Handler_cb step_DeleteMessage_cb)

theorem message_outcome_witness:
  "map_option batches
     (run [Start, GetMessages_cb None (Some [example_message, second_message]),
           Handler_cb 0 1 None] (init example_consumer))
    = Some [[Handling example_message, Deleting second_message]]
   \<and> map_option (\<lambda>w. filter is_outcome (trace w))
     (run [Start, GetMessages_cb None (Some [example_message, second_message]),
           Handler_cb 0 1 None, Handler_cb 0 0 (Some plain_error)] (init example_consumer))
    = Some [Emit (Processing_error plain_error example_message)]
   \<and> map_option (\<lambda>w. filter is_delete (trace w))
     (run [Start, GetMessages_cb None (Some [example_message, second_message]),
           Handler_cb 0 1 None, Handler_cb 0 0 (Some plain_error)] (init example_consumer))
    = Some [DeleteMessage ''jobs'' ''id-2'' ''receipt-2'']
   \<and> map_option (\<lambda>w. filter is_outcome (trace w))
     (run [Start, GetMessages_cb None (Some [example_message, second_message]),
           Handler_cb 0 1 None, DeleteMessage_cb 0 1 (Some plain_error)] (init example_consumer))
    = Some [Emit (Error (QueueServiceError [''Queue service delete message failed: boom''])
                    (Some second_message))]
   \<and> filter is_outcome
        (trace (processMessage 0 0 example_message
                  (init (example_consumer\<lparr> handleMessage := throwing_handler \<rparr>))))
    = [Emit (Processing_error
               (Error_new ''Unexpected message handler failure: x is undefined'')
               example_message)]"
proof -
  let ?es = "[Start, GetMessages_cb None (Some [example_message, second_message]), Handler_cb 0 1 None]"
  let ?W = "\<lparr> self = example_consumer\<lparr> stopped := False \<rparr>, handler_calls = 2, fetches = 0,
               timers = [], batches = [[Handling example_message, Deleting second_message]],
               trace = [GetMessages ''jobs'' example_params,
                        Emit (Message_received example_message),
                        Emit (Message_received second_message),
                        DeleteMessage ''jobs'' ''id-2'' ''receipt-2''] \<rparr>"
  let ?v = "init (example_consumer\<lparr> handleMessage := throwing_handler \<rparr>)"
  have w: "run ?es (init example_consumer) = Some ?W"
    by (simp add: start_def poll_def init_def handleQueueServiceResponse_def async_each_def
          processMessage_def set_slot_def emit_def example_consumer_def example_handler_def
          example_params_def js_mul_def slot_at_def handler_done_def deleteMessage_def
          second_message_def)
  have s: "slot_at ?W 0 0 = Some (Handling example_message)"
    "slot_at ?W 0 1 = Some (Deleting second_message)"
    by (simp_all add: slot_at_def)
  have run: "run (?es @ [e]) (init example_consumer) = step e ?W" for e
    by (rule run_snoc [OF w])
  note inst = message_outcome [of ?W 0 0 example_message "Some plain_error" 1 second_message
      "Some plain_error" ?v]
  from inst s obtain w1 where w1: "step (Handler_cb 0 0 (Some plain_error)) ?W = Some w1"
    "filter is_outcome (trace w1) = filter is_outcome (trace ?W)
       @ [Emit (if name plain_error = ''QueueServiceError''
                then Error plain_error (Some example_message)
                else Processing_error plain_error example_message)]"
    "filter is_delete (trace w1) = filter is_delete (trace ?W) @ []"
    by auto
  from inst s obtain w2 where w2: "step (DeleteMessage_cb 0 1 (Some plain_error)) ?W = Some w2"
    "filter is_outcome (trace w2) = filter is_outcome (trace ?W)
       @ [Emit (Error (QueueServiceError
                  [''Queue service delete message failed: '' @ message plain_error])
                  (Some second_message))]"
    by auto
  from inst have "filter is_outcome (trace (processMessage 0 0 example_message ?v)) =
       filter is_outcome (trace ?v)
         @ (case handleMessage (self ?v) (handler_calls ?v) example_message of
              Throws thrown \<Rightarrow>
                [Emit (Processing_error
                   (Error_new (''Unexpected message handler failure: '' @ message thrown))
                   example_message)]
            | Done_now (Some e) \<Rightarrow>
                [Emit (if name e = ''QueueServiceError'' then Error e (Some example_message)
                       else Processing_error e example_message)]
            | Done_now None \<Rightarrow> []
            | Done_later \<Rightarrow> [])"
    by blast
  then have sync: "filter is_outcome (trace (processMessage 0 0 example_message ?v))
    = [Emit (Processing_error
               (Error_new ''Unexpected message handler failure: x is undefined'')
               example_message)]"
    by (simp add: init_def throwing_handler_def)
  have r1: "run [Start, GetMessages_cb None (Some [example_message, second_message]),
           Handler_cb 0 1 None, Handler_cb 0 0 (Some plain_error)] (init example_consumer) = Some w1"
    using run [of "Handler_cb 0 0 (Some plain_error)"] w1(1) by simp
  have r2: "run [Start, GetMessages_cb None (Some [example_message, second_message]),
           Handler_cb 0 1 None, DeleteMessage_cb 0 1 (Some plain_error)] (init example_consumer) = Some w2"
    using run [of "DeleteMessage_cb 0 1 (Some plain_error)"] w2(1) by simp
  have o1: "filter is_outcome (trace w1) = [Emit (Processing_error plain_error example_message)]"
    using w1(2) by (simp add: plain_error_def)
  have d1: "filter is_delete (trace w1) = [DeleteMessage ''jobs'' ''id-2'' ''receipt-2'']"
    using w1(3) by simp
  have o2: "filter is_outcome (trace w2) =
      [Emit (Error (QueueServiceError [''Queue service delete message failed: boom''])
                    (Some second_message))]"
    using w2(2) by (simp add: plain_error_def)
  show ?thesis
    unfolding w r1 r2 using o1 d1 o2 sync by simp
qed

theorem handler_failure_reported_as_error:
  "map_option trace
     (run [Start, GetMessages_cb None (Some [example_message]),
           Handler_cb 0 0 (Some named_error)] (init example_consumer))
    = Some [GetMessages ''jobs'' example_params,
            Emit (Message_received example_message),
            Emit (Error named_error (Some example_message)),
            Emit Response_processed,
            GetMessages ''jobs'' example_params]"
  by (simp add: start_def poll_def init_def handleQueueServiceResponse_def async_each_def
        processMessage_def set_slot_def emit_def example_consumer_def example_handler_def
        example_params_def js_mul_def slot_at_def handler_done_def series_cb_def each_cb_def
        all_resolved_def named_error_def QueueServiceError_name_def)

section \<open>Stopping and starting again\<close>

lemma run_stopped:
  assumes "run es w = Some w'" and "Start \<notin> set es" and "stopped (self w)"
  shows "stopped (self w') \<and> filter is_fetch (trace w') = filter is_fetch (trace w)
    \<and> pending w' \<le> pending w"
  using assms
proof (induction es arbitrary: w)
  case Nil
  then show ?case by simp
next
  case (Cons e es)
  from Cons.prems(1) obtain v where v: "step e w = Some v" and r: "run es v = Some w'"
    by (auto split: option.splits)
  from Cons.prems(2) have e: "e \<noteq> Start" and es: "Start \<notin> set es" by auto
  from step_stopped [OF v e Cons.prems(3)] have sv: "stopped (self v)"
    and fv: "filter is_fetch (trace v) = filter is_fetch (trace w)" by simp_all
  from Cons.IH [OF r es sv] fv step_pending [OF v e] show ?case by simp
qed

lemma slot_at_stop [simp]: "slot_at (stop w) b i = slot_at w b i"
  by (simp add: stop_def slot_at_def)

lemma step_enabled_stop: "(step e (stop w) = None) = (step e w = None)"
proof (cases e)
  case (Handler_cb b i err)
  then show ?thesis by (simp split: option.splits slot.splits)
next
  case (DeleteMessage_cb b i err)
  then show ?thesis by (simp split: option.splits slot.splits)
qed (simp_all add: stop_def)

lemma each_cb_last:
  assumes "open_slot w b i" and "all_resolved ((batches w ! b)[i := Resolved])"
  shows "trace (each_cb b i w) = trace w @ [Emit Response_processed, poll_action (self w)]"
  using assms by (simp add: each_cb_slot_op slot_op_trace completes_def open_slot_def)

text \<open>
  C5: \<open>stop\<close> sets the flag and nothing else: what is pending stays pending, and the
  events that complete it are accepted as before. From then on, as long as \<open>start\<close> is
  not called, the flag stays set and no fetch is issued; every poll emits \<^verbatim>\<open>stopped\<close>
  instead, be it the poll of a timer that fires or the poll that follows the
  \<^verbatim>\<open>response_processed\<close> of the batch in flight.
\<close>

theorem stop_observed_at_next_poll:
  assumes "run es (stop w) = Some w'" and "Start \<notin> set es"
  shows "stop w = w\<lparr> self := (self w)\<lparr> stopped := True \<rparr> \<rparr>
    \<and> (\<forall>e. (step e (stop w) = None) = (step e w = None))
    \<and> stopped (self w')
    \<and> filter is_fetch (trace w') = filter is_fetch (trace w)
    \<and> pending w' \<le> pending w
    \<and> poll w' = emit Stopped w'
    \<and> (\<forall>k. k < length (timers w') \<longrightarrow>
          map_option trace (step (Timeout k) w') = Some (trace w' @ [Emit Stopped]))
    \<and> (\<forall>b i. open_slot w' b i \<and> all_resolved ((batches w' ! b)[i := Resolved]) \<longrightarrow>
          trace (each_cb b i w') = trace w' @ [Emit Response_processed, Emit Stopped])"
proof -
  have "stopped (self (stop w))" by (simp add: stop_def)
  from run_stopped [OF assms this]
  have s: "stopped (self w')" and f: "filter is_fetch (trace w') = filter is_fetch (trace w)"
    and p: "pending w' \<le> pending w"
    by (simp_all add: stop_def pending_def)
  have pa: "poll_action (self w') = Emit Stopped" using s by (simp add: poll_action_def)
  have "poll w' = emit Stopped w'" using s by (simp add: poll_def)
  moreover have "map_option trace (step (Timeout k) w') = Some (trace w' @ [Emit Stopped])"
    if "k < length (timers w')" for k
    using that s by (simp add: poll_def emit_def)
  moreover have "trace (each_cb b i w') = trace w' @ [Emit Response_processed, Emit Stopped]"
    if "open_slot w' b i \<and> all_resolved ((batches w' ! b)[i := Resolved])" for b i
    using that each_cb_last [of w' b i] pa by simp
  ultimately show ?thesis
    using s f p step_enabled_stop by (simp add: stop_def)
qed

theorem stop_observed_at_next_poll_witness:
  "Start \<notin> set [Handler_cb 0 0 (Some plain_error)]
   \<and> map_option (\<lambda>w. (fetches w, timers w, batches w))
        (run [Start, GetMessages_cb None (Some [example_message]), Stop] (init example_consumer))
       = Some (0, [], [[Handling example_message]])
   \<and> map_option trace
        (run [Start, GetMessages_cb None (Some [example_message]), Stop,
              Handler_cb 0 0 (Some plain_error)] (init example_consumer))
       = Some [GetMessages ''jobs'' example_params,
               Emit (Message_received example_message),
               Emit (Processing_error plain_error example_message),
               Emit Response_processed,
               Emit Stopped]
   \<and> map_option (\<lambda>w. (stopped (self w), pending w))
        (run [Start, GetMessages_cb None (Some [example_message]), Stop,
              Handler_cb 0 0 (Some plain_error)] (init example_consumer))
       = Some (True, 0)"
proof -
  let ?W = "\<lparr> self = example_consumer\<lparr> stopped := False \<rparr>, handler_calls = 1, fetches = 0,
               timers = [], batches = [[Handling example_message]],
               trace = [GetMessages ''jobs'' example_params,
                        Emit (Message_received example_message)] \<rparr>"
  have w: "run [Start, GetMessages_cb None (Some [example_message])] (init example_consumer)
      = Some ?W"
    by (simp add: start_def poll_def init_def handleQueueServiceResponse_def async_each_def
          processMessage_def set_slot_def emit_def example_consumer_def example_handler_def
          example_params_def js_mul_def)
  have r3: "run [Start, GetMessages_cb None (Some [example_message]), Stop] (init example_consumer)
      = Some (stop ?W)"
    using run_snoc [OF w, of Stop] by simp
  have no: "Start \<notin> set [Handler_cb 0 0 (Some plain_error)]" by simp
  obtain w' where w': "run [Handler_cb 0 0 (Some plain_error)] (stop ?W) = Some w'"
    and t: "trace w' = [GetMessages ''jobs'' example_params,
               Emit (Message_received example_message),
               Emit (Processing_error plain_error example_message),
               Emit Response_processed,
               Emit Stopped]"
    and p: "pending w' = 0"
    by (simp add: stop_def slot_at_def handler_done_def series_cb_def each_cb_def set_slot_def
          emit_def poll_def all_resolved_def plain_error_def QueueServiceError_name_def
          pending_def)
  have r4: "run [Start, GetMessages_cb None (Some [example_message]), Stop,
              Handler_cb 0 0 (Some plain_error)] (init example_consumer) = Some w'"
    using run_append [of "[Start, GetMessages_cb None (Some [example_message]), Stop]"
        "[Handler_cb 0 0 (Some plain_error)]" "init example_consumer"] w'
    unfolding r3 by simp
  from stop_observed_at_next_poll [OF w' no] have "stopped (self w')" by blast
  then show ?thesis
    unfolding r3 r4 using t p by (simp add: stop_def)
qed

text \<open>
  C3, as amended: when every \<open>start\<close> that finds the consumer stopped finds nothing
  pending, at most one thing is pending at any time, be it a fetch, a delay timer or a
  batch in flight; so at most one fetch or timer. (A \<open>start\<close> that follows a \<open>stop\<close> while
  a fetch, a timer or a batch is still pending opens a second loop beside the first.)
\<close>

theorem at_most_one_pending:
  assumes "pending w \<le> 1" and "starts_when_idle es w" and "run es w = Some w'"
  shows "pending w' \<le> 1 \<and> fetches w' + length (timers w') \<le> 1 \<and> pending (init c) = 0"
proof -
  have "pending w' \<le> 1"
    using assms
  proof (induction es arbitrary: w)
    case Nil
    then show ?case by simp
  next
    case (Cons e es)
    from Cons.prems(3) obtain v where v: "step e w = Some v" and r: "run es v = Some w'"
      by (auto split: option.splits)
    from Cons.prems(2) v have idle: "e = Start \<longrightarrow> \<not> stopped (self w) \<or> pending w = 0"
      and rest: "starts_when_idle es v" by simp_all
    have "pending v \<le> 1"
    proof (cases "e = Start")
      case True
      with v have "v = start w" by simp
      then show ?thesis using idle True Cons.prems(1) by (auto simp: start_pending)
    next
      case False
      from step_pending [OF v False] Cons.prems(1) show ?thesis by simp
    qed
    from Cons.IH [OF this rest r] show ?case .
  qed
  then show ?thesis by (simp add: pending_def init_def)
qed

theorem at_most_one_pending_witness:
  "pending (init example_consumer) \<le> 1
   \<and> starts_when_idle [Start, GetMessages_cb None (Some []), Stop, Timeout 0, Start]
        (init example_consumer)
   \<and> map_option (\<lambda>w. (fetches w, timers w, pending w))
        (run [Start, GetMessages_cb None (Some []), Stop, Timeout 0, Start]
           (init example_consumer)) = Some (1, [], 1)"
proof -
  let ?es = "[Start, GetMessages_cb None (Some []), Stop, Timeout 0, Start]"
  have p: "pending (init example_consumer) \<le> 1" by (simp add: pending_def init_def)
  have i: "starts_when_idle ?es (init example_consumer)"
    by (simp add: start_def stop_def poll_def init_def handleQueueServiceResponse_def
          setTimeout_def emit_def example_consumer_def pending_def)
  obtain w' where r: "run ?es (init example_consumer) = Some w'"
    and f: "fetches w' = 1" and t: "timers w' = []" and b: "batches w' = []"
    by (simp add: start_def stop_def poll_def init_def handleQueueServiceResponse_def
          setTimeout_def emit_def example_consumer_def)
  from at_most_one_pending [OF p i r] have "pending w' \<le> 1" by blast
  moreover have "pending w' = 1" using f t b by (simp add: pending_def)
  ultimately show ?thesis using p i r f t by simp
qed

theorem stop_start_doubles_the_loop:
  "map_option fetches (run [Start, Stop, Start] (init example_consumer)) = Some 2
   \<and> map_option fetches
       (run [Start, GetMessages_cb None (Some []), Stop, Start] (init example_consumer))
     = Some 1
   \<and> map_option timers
       (run [Start, GetMessages_cb None (Some []), Stop, Start] (init example_consumer))
     = Some [Fin 1000]
   \<and> map_option fetches
       (run [Start, GetMessages_cb None (Some []), Stop, Start, Timeout 0]
          (init example_consumer)) = Some 2"
  by (simp add: start_def stop_def poll_def init_def handleQueueServiceResponse_def
        setTimeout_def emit_def example_consumer_def js_mul_def)

section \<open>The end of a batch\<close>

lemma init_settled: "settled (init c)"
  by (simp add: settled_def init_def)

lemma run_settled:
  assumes "run es w = Some w'" and "settled w"
  shows "settled w'"
  using assms
proof (induction es arbitrary: w)
  case Nil
  then show ?case by simp
next
  case (Cons e es)
  from Cons.prems(1) obtain v where v: "step e w = Some v" and r: "run es v = Some w'"
    by (auto split: option.splits)
  from Cons.IH [OF r step_settled [OF v Cons.prems(2)]] show ?case .
qed

lemma slot_op_resolved_stays:
  assumes "open_slot v b' j" and "slot_at v b i = Some Resolved"
  shows "slot_at (slot_op b' j s pre v) b i = Some Resolved"
proof -
  from assms(2) have b: "b < length (batches v)" and i: "i < length (batches v ! b)"
    and r: "batches v ! b ! i = Resolved"
    by (auto simp: slot_at_def split: if_splits)
  from assms(1) have "batches v ! b' ! j \<noteq> Resolved" by (simp add: open_slot_def)
  with r have ne: "b' \<noteq> b \<or> j \<noteq> i" by auto
  have "(batches v)[b' := (batches v ! b')[j := s]] ! b ! i = batches v ! b ! i"
    and "length ((batches v)[b' := (batches v ! b')[j := s]] ! b) = length (batches v ! b)"
    using ne b by (cases "b' = b"; simp)+
  then show ?thesis
    using b i r by (simp add: slot_at_def)
qed

lemma slot_at_batches: "batches w' = batches w \<Longrightarrow> slot_at w' b i = slot_at w b i"
  by (simp add: slot_at_def)

lemma slot_at_handler_calls [simp]: "slot_at (w\<lparr> handler_calls := n \<rparr>) b i = slot_at w b i"
  by (simp add: slot_at_def)

lemma step_resolved_stays:
  assumes "step e w = Some w'" and "slot_at w b i = Some Resolved"
  shows "slot_at w' b i = Some Resolved"
proof (cases e)
  case Start
  with assms(1) have "batches w' = batches w" by (auto simp: start_def)
  from slot_at_batches [OF this] assms(2) show ?thesis by simp
next
  case Stop
  with assms(1) have "batches w' = batches w" by (auto simp: stop_def)
  from slot_at_batches [OF this] assms(2) show ?thesis by simp
next
  case (GetMessages_cb err response)
  let ?w0 = "w\<lparr> fetches := fetches w - 1 \<rparr>"
  from GetMessages_cb assms(1) have w': "w' = handleQueueServiceResponse err response ?w0"
    by (auto split: if_splits)
  from assms(2) have b: "b < length (batches w)" by (auto simp: slot_at_def split: if_splits)
  show ?thesis
  proof (cases rule: handleQueueServiceResponse_cases [of response err ?w0])
    case (batch m ms)
    let ?w1 = "report_fetch_error err ?w0"
    have "slot_at (async_each (m # ms) ?w1) b i = Some Resolved"
    proof (rule async_each_invariant [where Q = "\<lambda>v. slot_at v b i = Some Resolved"])
      show "slot_at (?w1\<lparr> batches := batches ?w1 @ [map (\<lambda>m. Queued) (m # ms)] \<rparr>) b i
          = Some Resolved"
        using assms(2) b by (auto simp: slot_at_def nth_append split: if_splits)
    qed (simp add: slot_op_resolved_stays)
    with batch w' show ?thesis by simp
  next
    case (wait delay)
    with w' have "batches w' = batches w" by (simp add: setTimeout_def)
    from slot_at_batches [OF this] assms(2) show ?thesis by simp
  qed
next
  case (Timeout k)
  with assms(1) have "batches w' = batches w" by (auto split: if_splits)
  from slot_at_batches [OF this] assms(2) show ?thesis by simp
next
  case (Handler_cb b' j err)
  with assms obtain msg where s: "slot_at w b' j = Some (Handling msg)"
    and w': "w' = handler_done b' j msg err w"
    by (auto split: option.splits slot.splits)
  obtain s' pre where "w' = slot_op b' j s' pre w"
    using handler_done_nf [of b' j msg err w] w' by auto
  then show ?thesis using slot_op_resolved_stays [OF slot_at_open [OF s] assms(2)] by simp
next
  case (DeleteMessage_cb b' j err)
  with assms obtain msg where s: "slot_at w b' j = Some (Deleting msg)"
    and w': "w' = deleteMessage_cb b' j msg err w"
    by (auto split: option.splits slot.splits)
  obtain pre where "w' = slot_op b' j Resolved pre w"
    using deleteMessage_cb_nf [of b' j msg err w] w' by auto
  then show ?thesis using slot_op_resolved_stays [OF slot_at_open [OF s] assms(2)] by simp
qed

lemma step_resolved_refused:
  assumes "slot_at w b i = Some Resolved"
  shows "step (Handler_cb b i err) w = None \<and> step (DeleteMessage_cb b i err) w = None"
  using assms by simp

lemma slot_op_completes:
  assumes "open_slot v b j"
  shows "all_resolved (batches (slot_op b j s pre v) ! b) = completes b j s v"
proof -
  from assms have b: "b < length (batches v)" and j: "j < length (batches v ! b)"
    by (simp_all add: open_slot_def)
  show ?thesis
    using b all_resolved_update [OF j, of s] by (auto simp: completes_def)
qed

text \<open>What one step adds to the trace, seen from \<^verbatim>\<open>response_processed\<close>.\<close>

lemma slot_op_barrier:
  assumes "open_slot w b i" and "slot_pre s pre"
  shows "filter is_response_processed (trace (slot_op b i s pre w))
        = filter is_response_processed (trace w)
    \<or> (\<exists>p. trace (slot_op b i s pre w)
             = trace w @ p @ [Emit Response_processed, poll_action (self (slot_op b i s pre w))]
          \<and> filter is_response_processed p = [] \<and> filter is_timeout p = []
          \<and> timers (slot_op b i s pre w) = timers w)"
proof (cases "completes b i s w")
  case True
  with assms(2) show ?thesis by (auto simp: slot_op_trace slot_pre_def)
next
  case False
  with assms(2) show ?thesis by (simp add: slot_op_trace slot_pre_def)
qed

lemma async_each_barrier:
  assumes "msgs \<noteq> []"
  shows "filter is_response_processed (trace (async_each msgs w))
        = filter is_response_processed (trace w)
    \<or> (\<exists>p. trace (async_each msgs w)
             = trace w @ p @ [Emit Response_processed, poll_action (self (async_each msgs w))]
          \<and> filter is_response_processed p = [] \<and> filter is_timeout p = []
          \<and> timers (async_each msgs w) = timers w)"
proof -
  let ?b = "length (batches w)"
  let ?Q = "\<lambda>v. self v = self w \<and> timers v = timers w
      \<and> (if all_resolved (batches v ! ?b)
          then \<exists>p. trace v = trace w @ p @ [Emit Response_processed, poll_action (self w)]
                 \<and> filter is_response_processed p = [] \<and> filter is_timeout p = []
          else \<exists>p. trace v = trace w @ p
                 \<and> filter is_response_processed p = [] \<and> filter is_timeout p = [])"
  have "?Q (async_each msgs w)"
  proof (rule async_each_invariant [where Q = ?Q])
    have "\<not> all_resolved (map (\<lambda>m. Queued) msgs)"
      using assms by (cases msgs) (simp_all add: all_resolved_def)
    then show "?Q (w\<lparr> batches := batches w @ [map (\<lambda>m. Queued) msgs] \<rparr>)" by simp
  next
    fix v j s pre
    assume Q: "?Q v" and o: "open_slot v ?b j" and sp: "slot_pre s pre"
    from o have "\<not> all_resolved (batches v ! ?b)"
      using all_resolved_nth [of j "batches v ! ?b"] by (simp add: open_slot_def)
    with Q obtain p where p: "trace v = trace w @ p" "filter is_response_processed p = []"
      "filter is_timeout p = []" and sv: "self v = self w" and tv: "timers v = timers w"
      by auto
    let ?v' = "(slot_op ?b j s pre v)\<lparr> handler_calls := Suc (handler_calls v) \<rparr>"
    have c: "all_resolved (batches ?v' ! ?b) = completes ?b j s v"
      using slot_op_completes [OF o, of s pre] by simp
    have t: "trace ?v' = trace w @ (p @ pre)
        @ (if completes ?b j s v then [Emit Response_processed, poll_action (self w)] else [])"
      by (simp add: slot_op_trace p(1) sv)
    have pp: "filter is_response_processed (p @ pre) = []" "filter is_timeout (p @ pre) = []"
      using p(2,3) sp by (simp_all add: slot_pre_def)
    show "?Q ?v'"
    proof (cases "completes ?b j s v")
      case True
      with t have "trace ?v' = trace w @ (p @ pre) @ [Emit Response_processed, poll_action (self w)]"
        by simp
      with pp True c sv tv show ?thesis by (simp del: append_assoc; blast?)
    next
      case False
      with t have "trace ?v' = trace w @ (p @ pre)" by simp
      with pp False c sv tv show ?thesis by (simp del: append_assoc; blast?)
    qed
  qed
  then show ?thesis by (auto split: if_splits)
qed

lemma report_fetch_error_trace:
  "\<exists>errs. trace (report_fetch_error err w) = trace w @ errs
      \<and> filter is_response_processed errs = [] \<and> filter is_timeout errs = []"
  by (cases err) (simp_all add: report_fetch_error_def emit_def is_response_processed_def)

lemma step_barrier:
  assumes "step e w = Some w'"
  shows "filter is_response_processed (trace w') = filter is_response_processed (trace w)
    \<or> (\<exists>p. trace w' = trace w @ p @ [Emit Response_processed, poll_action (self w')]
          \<and> filter is_response_processed p = [] \<and> filter is_timeout p = []
          \<and> timers w' = timers w)"
proof (cases e)
  case Start
  with assms show ?thesis by (auto simp: start_def poll_eq)
next
  case Stop
  with assms show ?thesis by (auto simp: stop_def)
next
  case (GetMessages_cb err response)
  let ?w0 = "w\<lparr> fetches := fetches w - 1 \<rparr>"
  let ?w1 = "report_fetch_error err ?w0"
  from GetMessages_cb assms have w': "w' = handleQueueServiceResponse err response ?w0"
    by (auto split: if_splits)
  obtain errs where errs: "trace ?w1 = trace w @ errs"
    "filter is_response_processed errs = []" "filter is_timeout errs = []"
    using report_fetch_error_trace [of err ?w0] by auto
  show ?thesis
  proof (cases rule: handleQueueServiceResponse_cases [of response err ?w0])
    case (batch m ms)
    then have w'': "w' = async_each (m # ms) ?w1" using w' by simp
    from async_each_barrier [of "m # ms" ?w1]
    consider (same) "filter is_response_processed (trace w')
          = filter is_response_processed (trace ?w1)"
      | (last) p where "trace w' = trace ?w1 @ p @ [Emit Response_processed, poll_action (self w')]"
          "filter is_response_processed p = []" "filter is_timeout p = []"
          "timers w' = timers ?w1"
      unfolding w'' by blast
    then show ?thesis
    proof cases
      case same
      then show ?thesis using errs by simp
    next
      case (last p)
      then have "trace w' = trace w @ (errs @ p) @ [Emit Response_processed, poll_action (self w')]"
        "filter is_response_processed (errs @ p) = []" "filter is_timeout (errs @ p) = []"
        "timers w' = timers w"
        using errs by simp_all
      then show ?thesis by blast
    qed
  next
    case (wait delay)
    with w' errs show ?thesis by (simp add: setTimeout_def is_response_processed_def)
  qed
next
  case (Timeout k)
  with assms show ?thesis by (auto simp: poll_eq split: if_splits)
next
  case (Handler_cb b i err)
  with assms obtain msg where s: "slot_at w b i = Some (Handling msg)"
    and w': "w' = handler_done b i msg err w"
    by (auto split: option.splits slot.splits)
  obtain s' pre where "slot_pre s' pre" "w' = slot_op b i s' pre w"
    using handler_done_nf [of b i msg err w] w' by auto
  then show ?thesis using slot_op_barrier [OF slot_at_open [OF s]] by simp
next
  case (DeleteMessage_cb b i err)
  with assms obtain msg where s: "slot_at w b i = Some (Deleting msg)"
    and w': "w' = deleteMessage_cb b i msg err w"
    by (auto split: option.splits slot.splits)
  obtain pre where "slot_pre Resolved pre" "w' = slot_op b i Resolved pre w"
    using deleteMessage_cb_nf [of b i msg err w] w' by auto
  then show ?thesis using slot_op_barrier [OF slot_at_open [OF s]] by simp
qed

text \<open>
  C4, as amended: in every state the consumer reaches, one settling signal has been
  emitted per message that has called back, and one \<^verbatim>\<open>response_processed\<close> per batch
  whose messages have all called back; a message that has called back stays so, and no
  further completion is accepted for it. A step that emits \<^verbatim>\<open>response_processed\<close> emits
  it once, and ends with it and the poll that follows, with no timer set: a fetch when
  the consumer is still running, the \<^verbatim>\<open>stopped\<close> signal when \<open>stop\<close> was called in the
  meantime.
\<close>

theorem batch_barrier:
  assumes "run es (init c) = Some w" and "step e w = Some w'"
  shows "length (filter is_outcome (trace w')) =
      sum_list (map (\<lambda>ss. length (filter (\<lambda>s. s = Resolved) ss)) (batches w'))
    \<and> length (filter is_response_processed (trace w')) = length (filter all_resolved (batches w'))
    \<and> (\<forall>b i. slot_at w b i = Some Resolved \<longrightarrow>
          slot_at w' b i = Some Resolved
          \<and> (\<forall>err. step (Handler_cb b i err) w = None \<and> step (DeleteMessage_cb b i err) w = None))
    \<and> (filter is_response_processed (trace w') = filter is_response_processed (trace w)
        \<or> (\<exists>p. trace w' = trace w @ p
                  @ [Emit Response_processed,
                     if stopped (self w') then Emit Stopped
                     else GetMessages (queueName (self w'))
                            \<lparr> numOfMessages = batchSize (self w'),
                              maximumExecutionTimeInMs =
                                js_mul (maximumExecutionTimeSeconds (self w')) (Fin 1000),
                              rp_visibilityTimeout = visibilityTimeout (self w') \<rparr>]
              \<and> filter is_response_processed p = [] \<and> filter is_timeout p = []
              \<and> timers w' = timers w))"
proof -
  have "settled w" using run_settled [OF assms(1) init_settled] .
  then have "settled w'" using step_settled [OF assms(2)] by simp
  then have counts: "length (filter is_outcome (trace w')) =
      sum_list (map (\<lambda>ss. length (filter (\<lambda>s. s = Resolved) ss)) (batches w'))"
    "length (filter is_response_processed (trace w')) = length (filter all_resolved (batches w'))"
    by (simp_all add: settled_def)
  have stays: "slot_at w' b i = Some Resolved
          \<and> (\<forall>err. step (Handler_cb b i err) w = None \<and> step (DeleteMessage_cb b i err) w = None)"
    if "slot_at w b i = Some Resolved" for b i
    using step_resolved_stays [OF assms(2) that] step_resolved_refused [OF that] by simp
  from counts stays step_barrier [OF assms(2)] show ?thesis
    unfolding poll_action_def by blast
qed

theorem batch_barrier_witness:
  "run [Start, GetMessages_cb None (Some [example_message, second_message]),
        Handler_cb 0 0 (Some plain_error)] (init example_consumer)
    = Some \<lparr> self = example_consumer\<lparr> stopped := False \<rparr>, handler_calls = 2, fetches = 0,
             timers = [], batches = [[Resolved, Handling second_message]],
             trace = [GetMessages ''jobs'' example_params,
                      Emit (Message_received example_message),
                      Emit (Message_received second_message),
                      Emit (Processing_error plain_error example_message)] \<rparr>
   \<and> map_option (\<lambda>w. (fetches w, timers w, batches w, trace w))
       (run [Start, GetMessages_cb None (Some [example_message, second_message]),
             Handler_cb 0 0 (Some plain_error), Handler_cb 0 1 (Some plain_error)]
          (init example_consumer))
    = Some (1, [], [[Resolved, Resolved]],
            [GetMessages ''jobs'' example_params,
             Emit (Message_received example_message),
             Emit (Message_received second_message),
             Emit (Processing_error plain_error example_message),
             Emit (Processing_error plain_error second_message),
             Emit Response_processed,
             GetMessages ''jobs'' example_params])
   \<and> map_option (\<lambda>w. (length (filter is_outcome (trace w)),
                       length (filter is_response_processed (trace w))))
       (run [Start, GetMessages_cb None (Some [example_message, second_message]),
             Handler_cb 0 0 (Some plain_error), Handler_cb 0 1 (Some plain_error)]
          (init example_consumer))
    = Some (2, 1)"
proof -
  let ?es = "[Start, GetMessages_cb None (Some [example_message, second_message]),
        Handler_cb 0 0 (Some plain_error)]"
  let ?W = "\<lparr> self = example_consumer\<lparr> stopped := False \<rparr>, handler_calls = 2, fetches = 0,
             timers = [], batches = [[Resolved, Handling second_message]],
             trace = [GetMessages ''jobs'' example_params,
                      Emit (Message_received example_message),
                      Emit (Message_received second_message),
                      Emit (Processing_error plain_error example_message)] \<rparr>"
  have w: "run ?es (init example_consumer) = Some ?W"
    by (simp add: start_def poll_def init_def handleQueueServiceResponse_def async_each_def
          processMessage_def set_slot_def emit_def example_consumer_def example_handler_def
          example_params_def js_mul_def slot_at_def handler_done_def series_cb_def each_cb_def
          all_resolved_def plain_error_def QueueServiceError_name_def)
  obtain w' where w': "step (Handler_cb 0 1 (Some plain_error)) ?W = Some w'"
    and f: "fetches w' = 1" and tm: "timers w' = []" and b: "batches w' = [[Resolved, Resolved]]"
    and t: "trace w' =
            [GetMessages ''jobs'' example_params,
             Emit (Message_received example_message),
             Emit (Message_received second_message),
             Emit (Processing_error plain_error example_message),
             Emit (Processing_error plain_error second_message),
             Emit Response_processed,
             GetMessages ''jobs'' example_params]"
    by (simp add: slot_at_def handler_done_def series_cb_def each_cb_def set_slot_def emit_def
          poll_def all_resolved_def plain_error_def QueueServiceError_name_def
          example_consumer_def example_params_def js_mul_def)
  from batch_barrier [OF w w'] b
  have "length (filter is_outcome (trace w')) = 2"
    and "length (filter is_response_processed (trace w')) = 1"
    by (simp_all add: all_resolved_def)
  moreover have "run [Start, GetMessages_cb None (Some [example_message, second_message]),
             Handler_cb 0 0 (Some plain_error), Handler_cb 0 1 (Some plain_error)]
          (init example_consumer) = Some w'"
    using run_snoc [OF w, of "Handler_cb 0 1 (Some plain_error)"] w' by simp
  ultimately show ?thesis unfolding w using f tm b t by simp
qed

theorem stopped_batch_ends_without_fetch:
  "map_option trace
     (run [Start, GetMessages_cb None (Some [example_message]), Stop,
           Handler_cb 0 0 None, DeleteMessage_cb 0 0 None] (init example_consumer))
    = Some [GetMessages ''jobs'' example_params,
            Emit (Message_received example_message),
            DeleteMessage ''jobs'' ''id-1'' ''receipt-1'',
            Emit (Message_processed example_message),
            Emit Response_processed,
            Emit Stopped]
   \<and> map_option batches
     (run [Start, GetMessages_cb None (Some [example_message]), Stop,
           Handler_cb 0 0 None, DeleteMessage_cb 0 0 None] (init example_consumer))
    = Some [[Resolved]]
   \<and> map_option fetches
     (run [Start, GetMessages_cb None (Some [example_message]), Stop,
           Handler_cb 0 0 None, DeleteMessage_cb 0 0 None] (init example_consumer))
    = Some 0
   \<and> map_option timers
     (run [Start, GetMessages_cb None (Some [example_message]), Stop,
           Handler_cb 0 0 None, DeleteMessage_cb 0 0 None] (init example_consumer))
    = Some []"
  by (simp add: start_def stop_def poll_def init_def handleQueueServiceResponse_def async_each_def
        processMessage_def set_slot_def emit_def example_consumer_def example_handler_def
        example_params_def js_mul_def slot_at_def handler_done_def deleteMessage_def
        deleteMessage_cb_def series_cb_def each_cb_def all_resolved_def example_message_def)

end
